theory Spec2Isabelle
  imports Complex_Main "HOL-Library.AList"
begin

section \<open>TimecodeReceiver (ndi\_transmitter.py and local\_saver.py)\<close>

text \<open>
  The OSC server object and the receive thread that \<open>start\<close> creates. The flags record
  what the standard library documents for the calls the source makes: constructing a
  \<open>ThreadingOSCUDPServer\<close> binds its UDP socket, \<open>serve_forever\<close> runs until
  \<open>shutdown\<close> is called, only \<open>server_close\<close> closes (unbinds) the socket, and only
  \<open>Thread.join\<close> joins a thread. \<open>serve_forever_entered\<close> says that a thread was started
  on \<open>serve_forever\<close>: \<open>shutdown\<close> waits for that loop to end, and never returns when no
  thread ever runs it.
\<close>

record osc_server =
  server_address :: "string \<times> nat"
  osc_address :: string
  socket_bound :: bool
  multicast_member :: bool
  serve_forever_entered :: bool
  serving :: bool

record recv_thread =
  daemon :: bool
  thread_started :: bool
  thread_joined :: bool

record TimecodeReceiver =
  port :: nat
  latest_timecode :: string
  tc_running :: bool
  measured_offset :: real
  server :: "osc_server option"
  thread :: "recv_thread option"

datatype py_exception = OSError | AttributeError | Cv2Error

text \<open>\<open>__init__\<close>: the attributes \<open>server\<close> and \<open>thread\<close> do not exist yet.\<close>

definition TimecodeReceiver_init :: "nat \<Rightarrow> TimecodeReceiver" where
  "TimecodeReceiver_init p =
     \<lparr>port = p, latest_timecode = ''00:00:00:00:0'', tc_running = False,
      measured_offset = 0, server = None, thread = None\<rparr>"

text \<open>
  \<open>timecode_handler\<close> of ndi\_transmitter.py. The arguments of an OSC message are values
  of a type \<open>'a\<close>; Python's \<open>str\<close> on one of them is the parameter \<open>py_str\<close>. The body
  runs under \<open>timecode_lock\<close>, so it is one atomic step.
\<close>

definition timecode_handler ::
  "('a \<Rightarrow> string) \<Rightarrow> TimecodeReceiver \<Rightarrow> string \<Rightarrow> 'a list \<Rightarrow> TimecodeReceiver" where
  "timecode_handler py_str self address args =
     (case args of
        [] \<Rightarrow> self
      | a0 # _ \<Rightarrow> self\<lparr>latest_timecode := py_str a0\<rparr>)"

text \<open>
  \<open>timecode_handler\<close> of local\_saver.py stores \<open>str(args[0:5])\<close>: the slice is the tuple
  of the first five arguments (fewer when there are fewer), and \<open>py_str_tuple\<close> is
  Python's \<open>str\<close> on a tuple.
\<close>

definition timecode_handler_saver ::
  "('a list \<Rightarrow> string) \<Rightarrow> TimecodeReceiver \<Rightarrow> string \<Rightarrow> 'a list \<Rightarrow> TimecodeReceiver" where
  "timecode_handler_saver py_str_tuple self address args =
     (if args \<noteq> [] then self\<lparr>latest_timecode := py_str_tuple (take 5 args)\<rparr> else self)"

definition get_timecode :: "TimecodeReceiver \<Rightarrow> string" where
  "get_timecode self = latest_timecode self"

text \<open>
  \<open>start\<close> of ndi\_transmitter.py. Two calls can raise \<open>OSError\<close>: creating the server
  (the port is taken), which leaves \<open>running\<close> set and no \<open>server\<close> attribute, and
  \<open>setsockopt(IP_ADD_MEMBERSHIP)\<close>, which leaves the bound server in \<open>self.server\<close> with no
  thread started on it.
\<close>

definition tc_start ::
  "bool \<Rightarrow> bool \<Rightarrow> TimecodeReceiver \<Rightarrow> (py_exception \<times> TimecodeReceiver) + TimecodeReceiver" where
  "tc_start bind_ok membership_ok self =
     (let self1 = self\<lparr>tc_running := True\<rparr> in
      if \<not> bind_ok then Inl (OSError, self1)
      else
        let srv = \<lparr>server_address = (''0.0.0.0'', port self1), osc_address = ''/timecode'',
                   socket_bound = True, multicast_member = False,
                   serve_forever_entered = False, serving = False\<rparr>;
            self2 = self1\<lparr>server := Some srv\<rparr>
        in if \<not> membership_ok then Inl (OSError, self2)
           else
             let srv1 = srv\<lparr>multicast_member := True\<rparr>;
                 thr = \<lparr>daemon = True, thread_started = True, thread_joined = False\<rparr>
             in Inr (self2\<lparr>server := Some (srv1\<lparr>serve_forever_entered := True, serving := True\<rparr>),
                           thread := Some thr\<rparr>))"

text \<open>
  \<open>start\<close> of local\_saver.py: bound to the host's own address \<open>ip\<close>, no multicast group.
  \<open>bind_ok\<close> is false when resolving the host name or creating the server raises.
\<close>

definition tc_start_saver ::
  "string \<Rightarrow> bool \<Rightarrow> TimecodeReceiver \<Rightarrow> (py_exception \<times> TimecodeReceiver) + TimecodeReceiver" where
  "tc_start_saver ip bind_ok self =
     (let self1 = self\<lparr>tc_running := True\<rparr> in
      if \<not> bind_ok then Inl (OSError, self1)
      else
        let srv = \<lparr>server_address = (ip, port self1), osc_address = ''/asil/clock'',
                   socket_bound = True, multicast_member = False,
                   serve_forever_entered = False, serving = False\<rparr>;
            thr = \<lparr>daemon = True, thread_started = True, thread_joined = False\<rparr>
        in Inr (self1\<lparr>server := Some (srv\<lparr>serve_forever_entered := True, serving := True\<rparr>),
                      thread := Some thr\<rparr>))"

text \<open>
  \<open>server.shutdown()\<close>: the \<open>serve_forever\<close> loop is told to stop and the caller waits
  until it has ended. \<open>None\<close> is the call that never returns.
\<close>

definition shutdown :: "osc_server \<Rightarrow> osc_server option" where
  "shutdown srv = (if serve_forever_entered srv then Some (srv\<lparr>serving := False\<rparr>) else None)"

text \<open>\<open>stop\<close>, the same text in both files; \<open>hasattr(self, 'server')\<close> is \<open>server self \<noteq> None\<close>.\<close>

definition tc_stop :: "TimecodeReceiver \<Rightarrow> TimecodeReceiver option" where
  "tc_stop self =
     (let self1 = self\<lparr>tc_running := False\<rparr> in
      case server self1 of
        None \<Rightarrow> Some self1
      | Some srv \<Rightarrow>
          (case shutdown srv of
             None \<Rightarrow> None
           | Some srv1 \<Rightarrow> Some (self1\<lparr>server := Some srv1\<rparr>)))"

text \<open>
  The calls that reach a receiver, in the order in which they take the lock: handler
  invocations by the server thread and \<open>get_timecode\<close> calls by the main loop.
\<close>

datatype 'a tc_call = Handler string "'a list" | Get

fun tc_step :: "('a \<Rightarrow> string) \<Rightarrow> TimecodeReceiver \<Rightarrow> 'a tc_call \<Rightarrow> TimecodeReceiver" where
  "tc_step py_str self (Handler address args) = timecode_handler py_str self address args"
| "tc_step py_str self Get = self"

definition tc_exec :: "('a \<Rightarrow> string) \<Rightarrow> 'a tc_call list \<Rightarrow> TimecodeReceiver \<Rightarrow> TimecodeReceiver" where
  "tc_exec py_str calls self = foldl (tc_step py_str) self calls"

text \<open>The strings stored by the handler invocations of a sequence, in order.\<close>

fun stored_values :: "('a \<Rightarrow> string) \<Rightarrow> 'a tc_call list \<Rightarrow> string list" where
  "stored_values py_str [] = []"
| "stored_values py_str (Get # calls) = stored_values py_str calls"
| "stored_values py_str (Handler address [] # calls) = stored_values py_str calls"
| "stored_values py_str (Handler address (a0 # rest) # calls) =
     py_str a0 # stored_values py_str calls"

section \<open>Grid layout (ndi\_receiver.py, create\_grid\_display)\<close>

text \<open>Lines 177 to 185: \<open>rows, cols\<close> from \<open>num_cams = len(frames)\<close>.\<close>

definition grid_layout :: "nat \<Rightarrow> nat \<times> nat" where
  "grid_layout num_cams =
     (if num_cams = 1 then (1, 1)
      else if num_cams = 2 then (1, 2)
      else if num_cams \<le> 4 then (2, 2)
      else (2, 3))"


section \<open>Images and the store of pixel buffers\<close>

text \<open>
  The pixel arithmetic of NumPy and OpenCV is kept symbolic: an image value is the raw
  data a source delivered, or a library operation applied to image values, with the
  arguments the source passes. \<open>'px\<close> is the raw pixel data. Every statement below about
  image values is an equation between such terms, so it holds whatever the operations
  compute.
\<close>

type_synonym colour = "nat \<times> nat \<times> nat"
type_synonym point = "int \<times> int"

datatype 'px image =
    Pixels nat nat 'px
  | CvtColor "'px image" string
  | Zeros nat nat
  | Rectangle "'px image" point point colour int
  | AddWeighted "'px image" real "'px image" real real
  | Resize "'px image" "nat \<times> nat"
  | SetSlice "'px image" nat nat nat nat "'px image"

text \<open>\<open>img.shape[:2]\<close>, that is (height, width); \<open>cv2.resize\<close> takes (width, height).\<close>

fun shape :: "'px image \<Rightarrow> nat \<times> nat" where
  "shape (Pixels h w d) = (h, w)"
| "shape (CvtColor img code) = shape img"
| "shape (Zeros h w) = (h, w)"
| "shape (Rectangle img p1 p2 c t) = shape img"
| "shape (AddWeighted img1 alpha img2 beta gamma) = shape img1"
| "shape (Resize img dsize) = (snd dsize, fst dsize)"
| "shape (SetSlice img y1 y2 x1 x2 v) = shape img"

text \<open>
  \<open>cv2.resize(img, dsize)\<close> raises \<open>cv2.error\<close> when the target width or height is 0 or
  the image has no pixels; otherwise it returns a new array of the target size.
\<close>

definition cv2_resize :: "'px image \<Rightarrow> nat \<times> nat \<Rightarrow> py_exception + 'px image" where
  "cv2_resize img dsize =
     (if fst dsize = 0 \<or> snd dsize = 0 \<or> fst (shape img) = 0 \<or> snd (shape img) = 0
      then Inl Cv2Error
      else Inr (Resize img dsize))"

text \<open>
  Frames are NumPy arrays that several names can refer to and that OpenCV draws on in
  place, so they live in a store: a frame reference is an index into the list of buffer
  contents, and allocating a new array appends to the list.
\<close>

type_synonym 'px heap = "'px image list"

section \<open>NDIReceiver (ndi\_receiver.py)\<close>

record ndi_source =
  ndi_name :: string
  url_address :: string

text \<open>
  What one \<open>connect\<close> call meets in the NDI library: whether \<open>initialize\<close> and
  \<open>find_create_v2\<close> succeed, the answer of the \<open>i\<close>-th call of
  \<open>find_get_current_sources\<close> (from 0), and whether \<open>recv_create_v3\<close> succeeds.
\<close>

record ndi_env =
  initialize_ok :: bool
  find_create_ok :: bool
  current_sources :: "nat \<Rightarrow> ndi_source list"
  recv_create_ok :: bool

text \<open>\<open>latest_frame\<close> is a reference into the store; \<open>frame_queue\<close> is never used.\<close>

record NDIReceiver =
  source_name :: string
  rx_running :: bool
  ndi_recv :: "ndi_source option"
  latest_frame :: "nat option"

definition NDIReceiver_init :: "string \<Rightarrow> NDIReceiver" where
  "NDIReceiver_init name =
     \<lparr>source_name = name, rx_running = False, ndi_recv = None, latest_frame = None\<rparr>"

text \<open>
  Lines 31 to 40: \<open>for _ in range(20)\<close> with \<open>n\<close> rounds left, \<open>i\<close> polls done and the
  current value of \<open>sources\<close>. The inner \<open>for\<close> only prints.
\<close>

fun poll_sources ::
  "(nat \<Rightarrow> ndi_source list) \<Rightarrow> string \<Rightarrow> nat \<Rightarrow> nat \<Rightarrow> ndi_source list \<Rightarrow> ndi_source list" where
  "poll_sources get name 0 i sources = sources"
| "poll_sources get name (Suc n) i sources =
     (let sources1 = get i in
      if list_ex (\<lambda>s. ndi_name s = name) sources1 then sources1
      else poll_sources get name n (Suc i) sources1)"

definition connect :: "ndi_env \<Rightarrow> NDIReceiver \<Rightarrow> bool \<times> NDIReceiver" where
  "connect env self =
     (if \<not> initialize_ok env then (False, self)
      else if \<not> find_create_ok env then (False, self)
      else
        let sources = poll_sources (current_sources env) (source_name self) 20 0 [] in
        case find (\<lambda>s. ndi_name s = source_name self) sources of
          None \<Rightarrow> (False, self)
        | Some source \<Rightarrow>
            if \<not> recv_create_ok env then (False, self)
            else (True, self\<lparr>ndi_recv := Some source\<rparr>))"

definition rx_start :: "ndi_env \<Rightarrow> NDIReceiver \<Rightarrow> bool \<times> NDIReceiver" where
  "rx_start env self =
     (case connect env self of
        (False, self1) \<Rightarrow> (False, self1)
      | (True, self1) \<Rightarrow> (True, self1\<lparr>rx_running := True\<rparr>))"

definition rx_stop :: "NDIReceiver \<Rightarrow> NDIReceiver" where
  "rx_stop self = self\<lparr>rx_running := False\<rparr>"

text \<open>
  One round of \<open>receive_loop\<close>: what \<open>recv_capture_v2\<close> returned. A video frame is copied,
  converted to BGR (a new array) and stored in the register under \<open>frame_lock\<close>.
\<close>

datatype 'px capture = FRAME_TYPE_VIDEO "'px image" | FRAME_TYPE_NONE

definition receive_step :: "'px capture \<Rightarrow> 'px heap \<Rightarrow> NDIReceiver \<Rightarrow> 'px heap \<times> NDIReceiver" where
  "receive_step c hp self =
     (case c of
        FRAME_TYPE_VIDEO v \<Rightarrow>
          (hp @ [CvtColor v ''COLOR_BGRA2BGR''], self\<lparr>latest_frame := Some (length hp)\<rparr>)
      | FRAME_TYPE_NONE \<Rightarrow> (hp, self))"

text \<open>\<open>latest_frame.copy()\<close> allocates a new array with the same contents.\<close>

definition get_latest_frame :: "'px heap \<Rightarrow> NDIReceiver \<Rightarrow> nat option \<times> 'px heap" where
  "get_latest_frame hp self =
     (case latest_frame self of
        None \<Rightarrow> (None, hp)
      | Some a \<Rightarrow> (Some (length hp), hp @ [hp ! a]))"

section \<open>MultiCameraRecorder (ndi\_receiver.py)\<close>

text \<open>
  A \<open>cv2.VideoWriter\<close>: \<open>write\<close> encodes the pixel data of the frame it is given at the
  moment of the call, so \<open>written\<close> holds image values, not references.
\<close>

record 'px VideoWriter =
  output_path :: string
  fourcc :: string
  fps :: nat
  frame_size :: "nat \<times> nat"
  written :: "'px image list"

text \<open>
  Python dictionaries keep insertion order: \<open>receivers\<close> and \<open>writers\<close> are association
  lists, \<open>d[k] = v\<close> is \<open>AList.update k v d\<close> and \<open>k in d\<close> is \<open>map_of d k \<noteq> None\<close>.
\<close>

record 'px MultiCameraRecorder =
  source_names :: "string list"
  receivers :: "(string \<times> NDIReceiver) list"
  writers :: "(string \<times> 'px VideoWriter) list"
  recording :: bool
  mc_running :: bool
  output_dir :: "string option"

definition MultiCameraRecorder_init :: "string list \<Rightarrow> 'px MultiCameraRecorder" where
  "MultiCameraRecorder_init names =
     \<lparr>source_names = names, receivers = [], writers = [], recording = False,
      mc_running = False, output_dir = None\<rparr>"

text \<open>
  The loop of \<open>connect_sources\<close>; \<open>world i\<close> is what the \<open>i\<close>-th \<open>receiver.start()\<close> call
  meets in the NDI library.
\<close>

fun connect_loop ::
  "(nat \<Rightarrow> ndi_env) \<Rightarrow> nat \<Rightarrow> string list \<Rightarrow> (string \<times> NDIReceiver) list \<Rightarrow>
   (string \<times> NDIReceiver) list" where
  "connect_loop world i [] rs = rs"
| "connect_loop world i (name # names) rs =
     (case rx_start (world i) (NDIReceiver_init name) of
        (True, receiver) \<Rightarrow> connect_loop world (Suc i) names (AList.update name receiver rs)
      | (False, receiver) \<Rightarrow> connect_loop world (Suc i) names rs)"

definition connect_sources ::
  "(nat \<Rightarrow> ndi_env) \<Rightarrow> 'px MultiCameraRecorder \<Rightarrow> bool \<times> 'px MultiCameraRecorder" where
  "connect_sources world self =
     (let self1 = self\<lparr>receivers := connect_loop world 0 (source_names self) (receivers self)\<rparr>
      in if receivers self1 = [] then (False, self1) else (True, self1))"

text \<open>The loop of \<open>start_recording\<close> (lines 149 to 156).\<close>

fun open_writers ::
  "string \<Rightarrow> (string \<times> NDIReceiver) list \<Rightarrow> 'px heap \<Rightarrow> (string \<times> 'px VideoWriter) list \<Rightarrow>
   'px heap \<times> (string \<times> 'px VideoWriter) list" where
  "open_writers dir [] hp ws = (hp, ws)"
| "open_writers dir ((name, receiver) # rest) hp ws =
     (case get_latest_frame hp receiver of
        (None, hp1) \<Rightarrow> open_writers dir rest hp1 ws
      | (Some frame, hp1) \<Rightarrow>
          (case shape (hp1 ! frame) of
             (h, w) \<Rightarrow>
               open_writers dir rest hp1
                 (AList.update name
                    \<lparr>output_path = dir @ ''/'' @ name @ ''.mp4'', fourcc = ''mp4v'', fps = 60,
                     frame_size = (w, h), written = []\<rparr> ws)))"

text \<open>\<open>timestamp\<close> is \<open>datetime.now().strftime(...)\<close> at the call.\<close>

definition start_recording ::
  "string \<Rightarrow> 'px heap \<Rightarrow> 'px MultiCameraRecorder \<Rightarrow> 'px heap \<times> 'px MultiCameraRecorder" where
  "start_recording timestamp hp self =
     (let dir = ''recordings/'' @ timestamp in
      case open_writers dir (receivers self) hp (writers self) of
        (hp1, ws) \<Rightarrow> (hp1, self\<lparr>output_dir := Some dir, writers := ws, recording := True\<rparr>))"

definition stop_recording :: "'px MultiCameraRecorder \<Rightarrow> 'px MultiCameraRecorder" where
  "stop_recording self = self\<lparr>recording := False, writers := []\<rparr>"

text \<open>
  Line 214, \<open>cv2.rectangle(frame, (0, 0), (w-1, h-1), (0, 0, 255), 20)\<close>: the red border,
  drawn on the buffer that \<open>frame\<close> refers to.
\<close>

definition draw_border :: "nat \<Rightarrow> nat \<Rightarrow> nat \<Rightarrow> 'px heap \<Rightarrow> 'px heap" where
  "draw_border h w frame hp =
     hp[frame := Rectangle (hp ! frame) (0, 0) (int w - 1, int h - 1) (0, 0, 255) 20]"

text \<open>
  The loop of \<open>create_grid_display\<close> (lines 201 to 229) over \<open>enumerate(frames.items())\<close>.
  \<open>cv2.rectangle(frame, ...)\<close> draws on the buffer \<open>frame\<close> refers to; \<open>overlay\<close>, the
  blended image and \<open>resized\<close> are new arrays that nothing else refers to, so they are
  values here. An exception of \<open>cv2.resize\<close> ends the loop; what was drawn on the buffers
  before stays drawn.
\<close>

fun grid_loop ::
  "bool \<Rightarrow> nat \<Rightarrow> nat \<Rightarrow> nat \<Rightarrow> nat \<Rightarrow> (nat \<times> string \<times> nat option) list \<Rightarrow>
   'px heap \<Rightarrow> 'px image \<Rightarrow> 'px heap \<times> (py_exception + 'px image)" where
  "grid_loop rec rows cols h w [] hp grid = (hp, Inr grid)"
| "grid_loop rec rows cols h w ((idx, name, None) # rest) hp grid =
     grid_loop rec rows cols h w rest hp grid"
| "grid_loop rec rows cols h w ((idx, name, Some frame) # rest) hp grid =
     (let display_w = w div 2;
          display_h = h div 2;
          row = idx div cols;
          col = idx mod cols
      in if row \<ge> rows then (hp, Inr grid)
         else
           let hp1 = (if rec then draw_border h w frame hp else hp);
               shown = (if rec
                        then AddWeighted (Rectangle (hp1 ! frame) (0, 0) (int w, 100) (0, 0, 180) (- 1))
                               0.7 (hp1 ! frame) 0.3 0
                        else hp1 ! frame)
           in case cv2_resize shown (display_w, display_h) of
                Inl e \<Rightarrow> (hp1, Inl e)
              | Inr resized \<Rightarrow>
                  (let y_start = row * display_h;
                       y_end = y_start + display_h;
                       x_start = col * display_w;
                       x_end = x_start + display_w
                   in grid_loop rec rows cols h w rest hp1
                        (SetSlice grid y_start y_end x_start x_end resized)))"

text \<open>
  \<open>create_grid_display\<close>: \<open>frames\<close> maps names to frame references or to \<open>None\<close>. The
  result is the grid (or \<open>None\<close>) or the exception raised, and the store after the
  drawing. With recording on, lines 232 to 235 draw the circle on the local grid and
  then read \<open>cv2.FONT_HERSHEY_BOLD\<close> for \<open>putText\<close>: OpenCV has no font constant of that
  name (local\_saver.py uses \<open>FONT_HERSHEY_SIMPLEX\<close>), so the attribute lookup raises
  \<open>AttributeError\<close> and the grid is lost.
\<close>

definition create_grid_display ::
  "'px MultiCameraRecorder \<Rightarrow> 'px heap \<Rightarrow> (string \<times> nat option) list \<Rightarrow>
   (py_exception + 'px image option) \<times> 'px heap" where
  "create_grid_display self hp frames =
     (case frames of
        [] \<Rightarrow> (Inr None, hp)
      | first # _ \<Rightarrow>
          (case grid_layout (length frames) of
             (rows, cols) \<Rightarrow>
               (case snd first of
                  None \<Rightarrow> (Inr None, hp)
                | Some first_frame \<Rightarrow>
                    (case shape (hp ! first_frame) of
                       (h, w) \<Rightarrow>
                         (let display_w = w div 2;
                              display_h = h div 2;
                              grid = Zeros (display_h * rows) (display_w * cols)
                          in case grid_loop (recording self) rows cols h w (enumerate 0 frames) hp grid of
                               (hp1, Inl e) \<Rightarrow> (Inl e, hp1)
                             | (hp1, Inr grid1) \<Rightarrow>
                                 (if recording self then (Inl AttributeError, hp1)
                                  else (Inr (Some grid1), hp1)))))))"

text \<open>
  Lines 253 to 262 of \<open>run\<close>: the poll of every receiver, with the dictionary \<open>frames\<close>
  and the writers. \<open>frame_counts\<close> only feeds the statistics printed on \<open>s\<close> and is left
  out with the console output.
\<close>

fun poll_receivers ::
  "bool \<Rightarrow> (string \<times> NDIReceiver) list \<Rightarrow> 'px heap \<Rightarrow> (string \<times> nat option) list \<Rightarrow>
   (string \<times> 'px VideoWriter) list \<Rightarrow>
   'px heap \<times> (string \<times> nat option) list \<times> (string \<times> 'px VideoWriter) list" where
  "poll_receivers rec [] hp frames ws = (hp, frames, ws)"
| "poll_receivers rec ((name, receiver) # rest) hp frames ws =
     (case get_latest_frame hp receiver of
        (None, hp1) \<Rightarrow> poll_receivers rec rest hp1 frames ws
      | (Some frame, hp1) \<Rightarrow>
          poll_receivers rec rest hp1 (AList.update name (Some frame) frames)
            (if rec
             then (case map_of ws name of
                     None \<Rightarrow> ws
                   | Some writer \<Rightarrow>
                       AList.update name (writer\<lparr>written := written writer @ [hp1 ! frame]\<rparr>) ws)
             else ws))"

text \<open>
  Lines 253 to 268: poll, write, compose; the result carries the grid given to \<open>imshow\<close>
  or the exception of \<open>create_grid_display\<close>.
\<close>

definition poll_and_display ::
  "'px heap \<Rightarrow> 'px MultiCameraRecorder \<Rightarrow>
   (py_exception + 'px image option) \<times> 'px heap \<times> 'px MultiCameraRecorder" where
  "poll_and_display hp self =
     (case poll_receivers (recording self) (receivers self) hp [] (writers self) of
        (hp1, frames, ws) \<Rightarrow>
          (let self1 = self\<lparr>writers := ws\<rparr> in
           case create_grid_display self1 hp1 frames of
             (grid, hp2) \<Rightarrow> (grid, hp2, self1)))"

definition mc_stop :: "'px MultiCameraRecorder \<Rightarrow> 'px MultiCameraRecorder" where
  "mc_stop self =
     (let self1 = self\<lparr>mc_running := False\<rparr>;
          self2 = (if recording self1 then stop_recording self1 else self1)
      in self2\<lparr>receivers := map (\<lambda>(name, receiver). (name, rx_stop receiver)) (receivers self2)\<rparr>)"

text \<open>
  The receive threads run beside the main loop. Every access to a register is atomic
  (\<open>frame_lock\<close>), so a run is a sequence of rounds of the main loop, each with the
  captures the receive threads complete before the poll and those they complete between
  the display and the key handling (where \<open>start_recording\<close> reads the registers again).
\<close>

fun deliver ::
  "(string \<times> 'px capture) list \<Rightarrow> 'px heap \<Rightarrow> (string \<times> NDIReceiver) list \<Rightarrow>
   'px heap \<times> (string \<times> NDIReceiver) list" where
  "deliver [] hp rs = (hp, rs)"
| "deliver ((name, c) # rest) hp rs =
     (case map_of rs name of
        None \<Rightarrow> deliver rest hp rs
      | Some receiver \<Rightarrow>
          (case receive_step c hp receiver of
             (hp1, receiver1) \<Rightarrow> deliver rest hp1 (AList.update name receiver1 rs)))"

record 'px round =
  captured_before :: "(string \<times> 'px capture) list"
  captured_after :: "(string \<times> 'px capture) list"
  wait_key :: int
  clock :: string

text \<open>
  The \<open>while\<close> loop of \<open>run\<close> over the rounds observed, with the grids shown so far.
  \<open>running\<close> is only cleared by \<open>stop\<close>, so the loop ends at the \<open>q\<close> key (\<open>ord('q')\<close> is
  113, \<open>ord('r')\<close> 114) and \<open>stop\<close> follows; when the rounds observed are used up the loop
  is still running and the state reached is returned. An exception of
  \<open>create_grid_display\<close> leaves \<open>run\<close> at once, without the key handling and without
  \<open>stop\<close> (\<open>main\<close> catches it and prints the trace): the last component is that exception.
\<close>

fun run_loop ::
  "'px round list \<Rightarrow> 'px heap \<Rightarrow> 'px MultiCameraRecorder \<Rightarrow> 'px image list \<Rightarrow>
   'px heap \<times> 'px MultiCameraRecorder \<times> 'px image list \<times> py_exception option" where
  "run_loop [] hp self shown = (hp, self, shown, None)"
| "run_loop (r # rounds) hp self shown =
     (case deliver (captured_before r) hp (receivers self) of
        (hp1, rs1) \<Rightarrow>
          (case poll_and_display hp1 (self\<lparr>receivers := rs1\<rparr>) of
             (Inl e, hp2, self2) \<Rightarrow> (hp2, self2, shown, Some e)
           | (Inr grid, hp2, self2) \<Rightarrow>
               (case deliver (captured_after r) hp2 (receivers self2) of
                  (hp3, rs3) \<Rightarrow>
                    (let self3 = self2\<lparr>receivers := rs3\<rparr>;
                         shown1 = (case grid of None \<Rightarrow> shown | Some g \<Rightarrow> shown @ [g]);
                         key = and (wait_key r) 255
                     in if key = 113 then (hp3, mc_stop self3, shown1, None)
                        else if key = 114 then
                          (if recording self3
                           then run_loop rounds hp3 (stop_recording self3) shown1
                           else (case start_recording (clock r) hp3 self3 of
                                   (hp4, self4) \<Rightarrow> run_loop rounds hp4 self4 shown1))
                        else run_loop rounds hp3 self3 shown1))))"

definition run ::
  "'px round list \<Rightarrow> 'px heap \<Rightarrow> 'px MultiCameraRecorder \<Rightarrow>
   'px heap \<times> 'px MultiCameraRecorder \<times> 'px image list \<times> py_exception option" where
  "run rounds hp self = run_loop rounds hp (self\<lparr>mc_running := True\<rparr>) []"

text \<open>
  What the specification says of the grid, to compare \<open>grid_loop\<close> with: the frames are
  downscaled to the tile size and tiled row-major, frame \<open>i\<close> in row \<open>i div cols\<close> and
  column \<open>i mod cols\<close>; an absent frame leaves its tile empty.
\<close>

definition place_tile :: "nat \<Rightarrow> nat \<Rightarrow> nat \<Rightarrow> 'px image \<Rightarrow> nat \<Rightarrow> 'px image \<Rightarrow> 'px image" where
  "place_tile cols dh dw grid i img =
     SetSlice grid (i div cols * dh) (i div cols * dh + dh) (i mod cols * dw) (i mod cols * dw + dw)
       (Resize img (dw, dh))"

fun tiled_row_major ::
  "nat \<Rightarrow> nat \<Rightarrow> nat \<Rightarrow> 'px heap \<Rightarrow> nat \<Rightarrow> nat option list \<Rightarrow> 'px image \<Rightarrow> 'px image" where
  "tiled_row_major cols dh dw hp i [] grid = grid"
| "tiled_row_major cols dh dw hp i (None # fs) grid = tiled_row_major cols dh dw hp (Suc i) fs grid"
| "tiled_row_major cols dh dw hp i (Some a # fs) grid =
     tiled_row_major cols dh dw hp (Suc i) fs (place_tile cols dh dw grid i (hp ! a))"

text \<open>The frame references of a list of optional references, in order.\<close>

fun present :: "nat option list \<Rightarrow> nat list" where
  "present [] = []"
| "present (None # fs) = present fs"
| "present (Some a # fs) = a # present fs"

section \<open>Properties of TimecodeReceiver\<close>

lemma tc_exec_latest:
  "latest_timecode (tc_exec py_str calls self) = latest_timecode self \<or>
   latest_timecode (tc_exec py_str calls self) \<in> set (stored_values py_str calls)"
proof (induction calls arbitrary: self)
  case Nil
  show ?case by (simp add: tc_exec_def)
next
  case (Cons c calls)
  show ?case
  proof (cases c)
    case Get
    with Cons [of self] show ?thesis by (simp add: tc_exec_def)
  next
    case (Handler address args)
    show ?thesis
    proof (cases args)
      case Nil
      with Handler Cons [of self] show ?thesis
        by (simp add: tc_exec_def timecode_handler_def)
    next
      case (Cons a0 rest)
      with Handler Cons.IH [of "self\<lparr>latest_timecode := py_str a0\<rparr>"] show ?thesis
        by (auto simp: tc_exec_def timecode_handler_def)
    qed
  qed
qed

text \<open>
  C4, as the code has it: \<open>stop\<close> clears \<open>running\<close> and, when a server exists, calls its
  \<open>shutdown\<close>. It returns unless a server exists on which no thread was ever started on
  \<open>serve_forever\<close>; when it returns, the \<open>serve_forever\<close> loop has stopped, the socket is
  bound as it was and the thread is as it was (never joined). The timecode is kept.
\<close>

theorem tc_stop_effect:
  "(tc_stop self = None \<longleftrightarrow> (\<exists>srv. server self = Some srv \<and> \<not> serve_forever_entered srv)) \<and>
   (\<forall>self1. tc_stop self = Some self1 \<longrightarrow>
      tc_running self1 = False \<and>
      map_option serving (server self1) = map_option (\<lambda>srv. False) (server self) \<and>
      map_option socket_bound (server self1) = map_option socket_bound (server self) \<and>
      thread self1 = thread self \<and>
      latest_timecode self1 = latest_timecode self)"
  by (cases "server self") (auto simp: tc_stop_def shutdown_def)

theorem tc_stop_effect_witness:
  "tc_start True True (TimecodeReceiver_init 6667) =
     Inr \<lparr>port = 6667, latest_timecode = ''00:00:00:00:0'', tc_running = True,
          measured_offset = 0,
          server = Some \<lparr>server_address = (''0.0.0.0'', 6667), osc_address = ''/timecode'',
                         socket_bound = True, multicast_member = True,
                         serve_forever_entered = True, serving = True\<rparr>,
          thread = Some \<lparr>daemon = True, thread_started = True, thread_joined = False\<rparr>\<rparr> \<and>
   tc_stop \<lparr>port = 6667, latest_timecode = ''00:00:00:00:0'', tc_running = True,
          measured_offset = 0,
          server = Some \<lparr>server_address = (''0.0.0.0'', 6667), osc_address = ''/timecode'',
                         socket_bound = True, multicast_member = True,
                         serve_forever_entered = True, serving = True\<rparr>,
          thread = Some \<lparr>daemon = True, thread_started = True, thread_joined = False\<rparr>\<rparr> =
     Some \<lparr>port = 6667, latest_timecode = ''00:00:00:00:0'', tc_running = False,
          measured_offset = 0,
          server = Some \<lparr>server_address = (''0.0.0.0'', 6667), osc_address = ''/timecode'',
                         socket_bound = True, multicast_member = True,
                         serve_forever_entered = True, serving = False\<rparr>,
          thread = Some \<lparr>daemon = True, thread_started = True, thread_joined = False\<rparr>\<rparr>"
proof -
  let ?S = "\<lparr>port = 6667, latest_timecode = ''00:00:00:00:0'', tc_running = True,
          measured_offset = 0,
          server = Some \<lparr>server_address = (''0.0.0.0'', 6667), osc_address = ''/timecode'',
                         socket_bound = True, multicast_member = True,
                         serve_forever_entered = True, serving = True\<rparr>,
          thread = Some \<lparr>daemon = True, thread_started = True, thread_joined = False\<rparr>\<rparr>"
  have start: "tc_start True True (TimecodeReceiver_init 6667) = Inr ?S"
    by (simp add: tc_start_def TimecodeReceiver_init_def)
  from tc_stop_effect [of ?S] have "tc_stop ?S \<noteq> None" by simp
  then obtain self1 where s1: "tc_stop ?S = Some self1" by blast
  with tc_stop_effect [of ?S] have "tc_running self1 = False" by blast
  with s1 have "tc_stop ?S = Some (?S\<lparr>tc_running := False,
      server := Some \<lparr>server_address = (''0.0.0.0'', 6667), osc_address = ''/timecode'',
                       socket_bound = True, multicast_member = True,
                       serve_forever_entered = True, serving = False\<rparr>\<rparr>)"
    by (simp add: tc_stop_def shutdown_def)
  with start show ?thesis by simp
qed

text \<open>
  C4 as the specification states it (\<open>stop\<close> unbinds the socket and joins the thread)
  fails on a receiver that was started on port 6667: \<open>stop\<close> returns, and after it the
  socket is still bound and the thread has not been joined.
\<close>

theorem tc_stop_counterexample:
  "case tc_start True True (TimecodeReceiver_init 6667) of
     Inl e \<Rightarrow> False
   | Inr self \<Rightarrow>
       (case tc_stop self of
          None \<Rightarrow> False
        | Some self1 \<Rightarrow>
            map_option socket_bound (server self1) = Some True \<and>
            map_option thread_joined (thread self1) = Some False)"
  by (simp add: tc_start_def tc_stop_def TimecodeReceiver_init_def shutdown_def)

text \<open>
  C5: after any sequence \<open>before\<close> of handler invocations and \<open>get_timecode\<close> calls on a
  new receiver, a \<open>get_timecode\<close> call returns the initial string \<open>00:00:00:00:0\<close> or a
  string that a handler invocation of \<open>before\<close> stored. Handler and getter hold the lock,
  so each is one step of the sequence and no partial string can be seen.
\<close>

theorem get_timecode_sentinel_or_stored:
  "get_timecode (tc_exec py_str before (TimecodeReceiver_init p)) = ''00:00:00:00:0'' \<or>
   get_timecode (tc_exec py_str before (TimecodeReceiver_init p)) \<in> set (stored_values py_str before)"
  using tc_exec_latest [of py_str before "TimecodeReceiver_init p"]
  by (simp add: get_timecode_def TimecodeReceiver_init_def)

text \<open>
  C7: a message with at least one argument replaces the stored timecode by the string
  of the first argument (ndi\_transmitter.py) or of the tuple of the first five arguments
  (local\_saver.py), whatever the arguments and the stored value are, and changes nothing
  else; a message with no argument leaves the receiver as it is.
\<close>

theorem timecode_handler_accepts:
  "(args \<noteq> [] \<longrightarrow>
      timecode_handler py_str self address args = self\<lparr>latest_timecode := py_str (hd args)\<rparr> \<and>
      get_timecode (timecode_handler py_str self address args) = py_str (hd args) \<and>
      timecode_handler_saver py_str_tuple self address args =
        self\<lparr>latest_timecode := py_str_tuple (take 5 args)\<rparr> \<and>
      get_timecode (timecode_handler_saver py_str_tuple self address args) =
        py_str_tuple (take 5 args)) \<and>
   (args = [] \<longrightarrow>
      timecode_handler py_str self address args = self \<and>
      timecode_handler_saver py_str_tuple self address args = self)"
  by (cases args) (simp_all add: timecode_handler_def timecode_handler_saver_def get_timecode_def)

theorem timecode_handler_accepts_witness:
  "get_timecode (timecode_handler (\<lambda>s. s) (TimecodeReceiver_init 6667) ''/timecode''
       [''01:02:03:04:1'', ''x'']) = ''01:02:03:04:1'' \<and>
   get_timecode (timecode_handler_saver concat (TimecodeReceiver_init 6575) ''/asil/clock''
       [''1'', ''2'', ''3'', ''4'', ''5'', ''6'']) = ''12345'' \<and>
   timecode_handler (\<lambda>s. s) (TimecodeReceiver_init 6667) ''/timecode'' [] =
     TimecodeReceiver_init 6667 \<and>
   timecode_handler_saver concat (TimecodeReceiver_init 6575) ''/asil/clock'' [] =
     TimecodeReceiver_init 6575"
  using timecode_handler_accepts [of "[''01:02:03:04:1'', ''x'']" "\<lambda>s. s"
      "TimecodeReceiver_init 6667" "''/timecode''" concat]
    timecode_handler_accepts [of "[''1'', ''2'', ''3'', ''4'', ''5'', ''6'']" "\<lambda>s. s"
      "TimecodeReceiver_init 6575" "''/asil/clock''" concat]
    timecode_handler_accepts [of "[]::string list" "\<lambda>s. s"
      "TimecodeReceiver_init 6667" "''/timecode''" concat]
    timecode_handler_accepts [of "[]::string list" "\<lambda>s. s"
      "TimecodeReceiver_init 6575" "''/asil/clock''" concat]
  by (simp add: get_timecode_def)

section \<open>Properties of the grid\<close>

lemma shape_grid_loop:
  "snd (grid_loop rec rows cols h w es hp grid) = Inr g \<Longrightarrow> shape g = shape grid"
  by (induction rec rows cols h w es hp grid rule: grid_loop.induct)
     (auto simp: Let_def split: if_splits sum.splits)

lemma create_grid_display_shape:
  assumes "frames = (name, Some a) # rest"
    and "create_grid_display self hp frames = (Inr (Some grid), hp1)"
  shows "shape grid = (fst (shape (hp ! a)) div 2 * fst (grid_layout (length frames)),
                       snd (shape (hp ! a)) div 2 * snd (grid_layout (length frames)))"
proof -
  obtain rows cols where lay: "grid_layout (length frames) = (rows, cols)"
    by (cases "grid_layout (length frames)")
  obtain h w where sh: "shape (hp ! a) = (h, w)" by (cases "shape (hp ! a)")
  let ?gl = "grid_loop (recording self) rows cols h w (enumerate 0 frames) hp
               (Zeros (h div 2 * rows) (w div 2 * cols))"
  obtain hp2 res where gl: "?gl = (hp2, res)" by (cases ?gl)
  from assms lay sh gl have "res = Inr grid"
    by (simp add: create_grid_display_def Let_def split: sum.splits if_splits
        del: grid_loop.simps enumerate_simps)
  with gl have "snd ?gl = Inr grid" by simp
  from shape_grid_loop [OF this] lay sh show ?thesis by simp
qed

text \<open>
  C1: the layout depends on the number of frames only: one frame gives 1 by 1, two give
  1 by 2, three and four give 2 by 2, five and more give 2 by 3. Whenever
  \<open>create_grid_display\<close> returns a grid, the grid has that many tiles of half the first
  frame's height and width.
\<close>

theorem grid_layout_by_count:
  "(length frames = 1 \<longrightarrow> grid_layout (length frames) = (1, 1)) \<and>
   (length frames = 2 \<longrightarrow> grid_layout (length frames) = (1, 2)) \<and>
   (length frames = 3 \<or> length frames = 4 \<longrightarrow> grid_layout (length frames) = (2, 2)) \<and>
   (5 \<le> length frames \<longrightarrow> grid_layout (length frames) = (2, 3)) \<and>
   (\<forall>name a rest grid hp1.
      frames = (name, Some a) # rest \<and>
      create_grid_display self hp frames = (Inr (Some grid), hp1) \<longrightarrow>
        shape grid = (fst (shape (hp ! a)) div 2 * fst (grid_layout (length frames)),
                      snd (shape (hp ! a)) div 2 * snd (grid_layout (length frames))))"
proof -
  have layout: "(length frames = 1 \<longrightarrow> grid_layout (length frames) = (1, 1)) \<and>
   (length frames = 2 \<longrightarrow> grid_layout (length frames) = (1, 2)) \<and>
   (length frames = 3 \<or> length frames = 4 \<longrightarrow> grid_layout (length frames) = (2, 2)) \<and>
   (5 \<le> length frames \<longrightarrow> grid_layout (length frames) = (2, 3))"
    by (auto simp: grid_layout_def)
  with create_grid_display_shape [of frames _ _ _ self hp] show ?thesis by blast
qed

theorem grid_layout_by_count_witness:
  "grid_layout (length [(''cam1'', Some (0::nat)), (''cam2'', Some 1), (''cam3'', Some 2)]) = (2, 2) \<and>
   (\<exists>grid.
      create_grid_display (MultiCameraRecorder_init [''cam1'', ''cam2'', ''cam3''])
        [Pixels 720 1280 (0::nat), Pixels 720 1280 1, Pixels 720 1280 2]
        [(''cam1'', Some 0), (''cam2'', Some 1), (''cam3'', Some 2)] =
        (Inr (Some grid), [Pixels 720 1280 0, Pixels 720 1280 1, Pixels 720 1280 2]) \<and>
      shape grid = (720, 1280))"
proof -
  let ?F = "[(''cam1'', Some (0::nat)), (''cam2'', Some 1), (''cam3'', Some 2)]"
  let ?H = "[Pixels 720 1280 (0::nat), Pixels 720 1280 1, Pixels 720 1280 2]"
  let ?S = "MultiCameraRecorder_init [''cam1'', ''cam2'', ''cam3''] :: nat MultiCameraRecorder"
  have lay: "grid_layout (length ?F) = (2, 2)" by (simp add: grid_layout_def)
  obtain grid where cg: "create_grid_display ?S ?H ?F = (Inr (Some grid), ?H)"
    by (simp add: create_grid_display_def grid_layout_def cv2_resize_def
        MultiCameraRecorder_init_def Let_def)
  have fr: "?F = (''cam1'', Some 0) # [(''cam2'', Some 1), (''cam3'', Some 2)]" by simp
  from grid_layout_by_count [of ?F ?S ?H, THEN conjunct2, THEN conjunct2, THEN conjunct2,
      THEN conjunct2, THEN spec, THEN spec, THEN spec, THEN spec, THEN spec, THEN mp,
      OF conjI [OF fr cg]]
  have "shape grid = (720, 1280)" unfolding lay by simp
  with lay cg show ?thesis by blast
qed

lemma grid_loop_beyond:
  "\<forall>e \<in> set es. rows \<le> fst e div cols \<Longrightarrow>
   grid_loop rec rows cols h w es hp grid = (hp, Inr grid)"
  by (induction rec rows cols h w es hp grid rule: grid_loop.induct) (simp_all add: Let_def)

lemma grid_loop_append:
  "\<forall>e \<in> set ys. rows \<le> fst e div cols \<Longrightarrow>
   grid_loop rec rows cols h w (xs @ ys) hp grid = grid_loop rec rows cols h w xs hp grid"
proof (induction rec rows cols h w xs hp grid rule: grid_loop.induct)
  case (1 rec rows cols h w hp grid)
  then show ?case by (simp add: grid_loop_beyond)
next
  case (2 rec rows cols h w idx name rest hp grid)
  then show ?case by simp
next
  case (3 rec rows cols h w idx name frame rest hp grid)
  let ?hp1 = "if rec then draw_border h w frame hp else hp"
  let ?shown = "if rec then AddWeighted (Rectangle (?hp1 ! frame) (0, 0) (int w, 100) (0, 0, 180) (- 1))
                               0.7 (?hp1 ! frame) 0.3 0 else ?hp1 ! frame"
  show ?case
  proof (cases "rows \<le> idx div cols")
    case True
    then show ?thesis by (simp add: Let_def)
  next
    case False
    show ?thesis
    proof (cases "cv2_resize ?shown (w div 2, h div 2)")
      case (Inl e)
      with False show ?thesis by (simp add: Let_def)
    next
      case (Inr resized)
      from "3.IH" [OF refl refl refl refl False refl refl Inr refl refl refl refl "3.prems"]
        False Inr
      show ?thesis by (simp add: Let_def)
    qed
  qed
qed

lemma enumerate_beyond:
  "0 < cols \<Longrightarrow> \<forall>e \<in> set (enumerate (rows * cols + k) ys). rows \<le> fst e div cols"
proof
  fix e assume c: "0 < cols" and e: "e \<in> set (enumerate (rows * cols + k) ys)"
  then have "rows * cols \<le> fst e" by (auto simp: in_set_enumerate_eq)
  with c show "rows \<le> fst e div cols"
    by (simp add: less_eq_div_iff_mult_less_eq)
qed

lemma grid_loop_take:
  assumes "0 < cols"
  shows "grid_loop rec rows cols h w (enumerate 0 frames) hp grid =
         grid_loop rec rows cols h w (enumerate 0 (take (rows * cols) frames)) hp grid"
proof (cases "length frames \<le> rows * cols")
  case True
  then show ?thesis by simp
next
  case False
  then have len: "length (take (rows * cols) frames) = rows * cols" by simp
  have "enumerate 0 frames =
        enumerate 0 (take (rows * cols) frames @ drop (rows * cols) frames)" by simp
  also have "\<dots> = enumerate 0 (take (rows * cols) frames) @
                   enumerate (rows * cols + 0) (drop (rows * cols) frames)"
    unfolding enumerate_append_eq len by simp
  finally show ?thesis
    using grid_loop_append [OF enumerate_beyond [OF assms, of rows 0 "drop (rows * cols) frames"]]
    by simp
qed

lemma grid_layout_cols: "grid_layout n = (rows, cols) \<Longrightarrow> 0 < cols"
  by (auto simp: grid_layout_def split: if_splits)

lemma enumerate_refs: "map (\<lambda>e. snd (snd e)) (enumerate i frames) = map snd frames"
proof -
  have "map (\<lambda>e. snd (snd e)) (enumerate i frames) = map snd (map snd (enumerate i frames))"
    by (simp only: map_map comp_def)
  then show ?thesis by (simp only: map_snd_enumerate)
qed

text \<open>Without recording and without a failing resize the loop tiles the frames row-major.\<close>

lemma grid_loop_tiles:
  "i + length frames \<le> rows * cols \<Longrightarrow> 0 < cols \<Longrightarrow> 0 < h div 2 \<Longrightarrow> 0 < w div 2 \<Longrightarrow>
   \<forall>b \<in> set (present (map snd frames)). 0 < fst (shape (hp ! b)) \<and> 0 < snd (shape (hp ! b)) \<Longrightarrow>
   grid_loop False rows cols h w (enumerate i frames) hp grid =
     (hp, Inr (tiled_row_major cols (h div 2) (w div 2) hp i (map snd frames) grid))"
proof (induction frames arbitrary: i grid)
  case Nil
  show ?case by simp
next
  case (Cons p frames)
  obtain name f where p: "p = (name, f)" by (cases p)
  from Cons.prems have next_i: "Suc i + length frames \<le> rows * cols" by simp
  from Cons.prems have "i < rows * cols" by simp
  with Cons.prems(2) have row: "\<not> rows \<le> i div cols"
    by (simp add: div_less_iff_less_mult not_le)
  show ?case
  proof (cases f)
    case None
    with Cons.prems have rest: "\<forall>b \<in> set (present (map snd frames)).
        0 < fst (shape (hp ! b)) \<and> 0 < snd (shape (hp ! b))" by (simp add: p)
    from Cons.IH [OF next_i Cons.prems(2,3,4) rest] None show ?thesis by (simp add: p)
  next
    case (Some a)
    with Cons.prems have rest: "\<forall>b \<in> set (present (map snd frames)).
        0 < fst (shape (hp ! b)) \<and> 0 < snd (shape (hp ! b))"
      and a: "0 < fst (shape (hp ! a))" "0 < snd (shape (hp ! a))" by (simp_all add: p)
    from a Cons.prems(3,4) have rz: "cv2_resize (hp ! a) (w div 2, h div 2) =
        Inr (Resize (hp ! a) (w div 2, h div 2))" by (simp add: cv2_resize_def)
    from Cons.IH [OF next_i Cons.prems(2,3,4) rest] Some row rz show ?thesis
      by (simp add: p Let_def place_tile_def)
  qed
qed

lemma shape_border: "shape (draw_border h w a hp ! b) = shape (hp ! b)"
  by (cases "a < length hp"; cases "b = a")
     (simp_all add: draw_border_def list_update_beyond not_less)

text \<open>With recording, and when no resize fails, the loop ends without an exception.\<close>

lemma grid_loop_no_error:
  "0 < h div 2 \<Longrightarrow> 0 < w div 2 \<Longrightarrow>
   \<forall>b \<in> set (present (map (\<lambda>e. snd (snd e)) es)).
      0 < fst (shape (hp ! b)) \<and> 0 < snd (shape (hp ! b)) \<Longrightarrow>
   \<exists>g. snd (grid_loop rec rows cols h w es hp grid) = Inr g"
proof (induction rec rows cols h w es hp grid rule: grid_loop.induct)
  case (1 rec rows cols h w hp grid)
  show ?case by simp
next
  case (2 rec rows cols h w idx name rest hp grid)
  then show ?case by simp
next
  case (3 rec rows cols h w idx name frame rest hp grid)
  let ?hp1 = "if rec then draw_border h w frame hp else hp"
  let ?shown = "if rec then AddWeighted (Rectangle (?hp1 ! frame) (0, 0) (int w, 100) (0, 0, 180) (- 1))
                               0.7 (?hp1 ! frame) 0.3 0 else ?hp1 ! frame"
  have sh: "shape (?hp1 ! b) = shape (hp ! b)" for b by (simp add: shape_border)
  have "shape ?shown = shape (hp ! frame)" by (simp add: shape_border)
  with "3.prems" have rz: "cv2_resize ?shown (w div 2, h div 2) = Inr (Resize ?shown (w div 2, h div 2))"
    by (simp add: cv2_resize_def)
  from "3.prems"(3) have rest: "\<forall>b \<in> set (present (map (\<lambda>e. snd (snd e)) rest)).
      0 < fst (shape (?hp1 ! b)) \<and> 0 < snd (shape (?hp1 ! b))"
    by (simp add: sh)
  show ?case
  proof (cases "rows \<le> idx div cols")
    case True
    then show ?thesis by (simp add: Let_def)
  next
    case False
    from "3.IH" [OF refl refl refl refl False refl refl rz refl refl refl refl "3.prems"(1,2) rest]
      False rz
    show ?thesis by (simp add: Let_def)
  qed
qed

lemma create_grid_display_take:
  assumes "grid_layout (length frames) = (rows, cols)"
    and "grid_layout (length (take (rows * cols) frames)) = (rows, cols)"
  shows "create_grid_display self hp frames = create_grid_display self hp (take (rows * cols) frames)"
proof (cases frames)
  case Nil
  then show ?thesis by simp
next
  case (Cons first rest)
  from assms(1) have cols: "0 < cols" by (rule grid_layout_cols)
  have rows: "0 < rows" using assms(1) by (auto simp: grid_layout_def split: if_splits)
  have loop: "grid_loop rec rows cols h w (enumerate 0 frames) hp grid =
              grid_loop rec rows cols h w (enumerate 0 (take (rows * cols) frames)) hp grid"
    for rec h w grid
    by (rule grid_loop_take [OF cols])
  from rows cols obtain k where k: "rows * cols = Suc k" by (cases "rows * cols") auto
  show ?thesis
    unfolding create_grid_display_def assms prod.case loop
    by (simp add: Cons k)
qed


lemma create_grid_display_first:
  assumes "frames = (name, Some a) # rest" and "shape (hp ! a) = (h, w)"
    and "grid_layout (length frames) = (rows, cols)"
    and "grid_loop (recording self) rows cols h w (enumerate 0 frames) hp
           (Zeros (h div 2 * rows) (w div 2 * cols)) = (hp1, res)"
  shows "create_grid_display self hp frames =
           (case res of
              Inl e \<Rightarrow> (Inl e, hp1)
            | Inr grid1 \<Rightarrow> if recording self then (Inl AttributeError, hp1)
                           else (Inr (Some grid1), hp1))"
  using assms
  by (simp add: create_grid_display_def Let_def del: grid_loop.simps enumerate_simps
      split: sum.splits)

text \<open>
  C8: with more than six frames the layout is 2 by 3 and \<open>create_grid_display\<close> gives the
  same result (the grid or the exception, and the store) as for the first six frames
  alone: the frames from index 6 on are dropped and change nothing. When no resize fails
  (the first frame is at least 2 by 2 and the frames placed have pixels), then with
  recording off the grid returned is the first six frames tiled row-major, on an
  untouched store, and with recording on the call raises \<open>AttributeError\<close> at
  \<open>cv2.FONT_HERSHEY_BOLD\<close> instead of returning the grid.
\<close>

theorem grid_drops_beyond_capacity:
  assumes "6 < length frames"
  shows "grid_layout (length frames) = (2, 3) \<and>
         create_grid_display self hp frames = create_grid_display self hp (take 6 frames) \<and>
         (\<forall>name a rest h w.
            frames = (name, Some a) # rest \<and> shape (hp ! a) = (h, w) \<and> 2 \<le> h \<and> 2 \<le> w \<and>
            (\<forall>b \<in> set (present (map snd (take 6 frames))).
               0 < fst (shape (hp ! b)) \<and> 0 < snd (shape (hp ! b))) \<longrightarrow>
              (\<not> recording self \<longrightarrow>
                 create_grid_display self hp frames =
                   (Inr (Some (tiled_row_major 3 (h div 2) (w div 2) hp 0 (map snd (take 6 frames))
                                 (Zeros (h div 2 * 2) (w div 2 * 3)))), hp)) \<and>
              (recording self \<longrightarrow> fst (create_grid_display self hp frames) = Inl AttributeError))"
proof -
  from assms have lay: "grid_layout (length frames) = (2, 3)"
    by (simp add: grid_layout_def)
  from assms have lay6: "grid_layout (length (take (2 * 3) frames)) = (2, 3)"
    by (simp add: grid_layout_def)
  have eq: "create_grid_display self hp frames = create_grid_display self hp (take 6 frames)"
    using create_grid_display_take [OF lay lay6, of self hp] by simp
  have placed: "(\<not> recording self \<longrightarrow>
                 create_grid_display self hp frames =
                   (Inr (Some (tiled_row_major 3 (h div 2) (w div 2) hp 0 (map snd (take 6 frames))
                                 (Zeros (h div 2 * 2) (w div 2 * 3)))), hp)) \<and>
              (recording self \<longrightarrow> fst (create_grid_display self hp frames) = Inl AttributeError)"
    if A: "frames = (name, Some a) # rest \<and> shape (hp ! a) = (h, w) \<and> 2 \<le> h \<and> 2 \<le> w \<and>
            (\<forall>b \<in> set (present (map snd (take 6 frames))).
               0 < fst (shape (hp ! b)) \<and> 0 < snd (shape (hp ! b)))"
    for name a rest h w
  proof -
    let ?T = "take 6 frames"
    let ?Z = "Zeros (h div 2 * 2) (w div 2 * 3)"
    from A have dh: "0 < h div 2" and dw: "0 < w div 2" by auto
    from A have ok: "\<forall>b \<in> set (present (map snd ?T)).
        0 < fst (shape (hp ! b)) \<and> 0 < snd (shape (hp ! b))" by simp
    have loop: "grid_loop rec 2 3 h w (enumerate 0 frames) hp ?Z =
                grid_loop rec 2 3 h w (enumerate 0 ?T) hp ?Z" for rec
      using grid_loop_take [of 3 rec 2 h w frames hp ?Z] by simp
    show ?thesis
    proof (intro conjI impI)
      assume idle: "\<not> recording self"
      have "grid_loop False 2 3 h w (enumerate 0 ?T) hp ?Z =
            (hp, Inr (tiled_row_major 3 (h div 2) (w div 2) hp 0 (map snd ?T) ?Z))"
        by (rule grid_loop_tiles) (use assms dh dw ok in simp_all)
      with loop [of False] idle have "grid_loop (recording self) 2 3 h w (enumerate 0 frames) hp ?Z =
            (hp, Inr (tiled_row_major 3 (h div 2) (w div 2) hp 0 (map snd ?T) ?Z))" by simp
      from create_grid_display_first [OF _ _ lay this, of name a rest] A idle
      show "create_grid_display self hp frames =
              (Inr (Some (tiled_row_major 3 (h div 2) (w div 2) hp 0 (map snd ?T) ?Z)), hp)"
        by simp
    next
      assume rec: "recording self"
      from ok have "\<forall>b \<in> set (present (map (\<lambda>e. snd (snd e)) (enumerate 0 ?T))).
          0 < fst (shape (hp ! b)) \<and> 0 < snd (shape (hp ! b))"
        by (simp only: enumerate_refs)
      from grid_loop_no_error [OF dh dw this, of "recording self" 2 3 ?Z]
      obtain g where "snd (grid_loop (recording self) 2 3 h w (enumerate 0 ?T) hp ?Z) = Inr g"
        by blast
      then have "snd (grid_loop (recording self) 2 3 h w (enumerate 0 frames) hp ?Z) = Inr g"
        by (simp only: loop)
      then have "grid_loop (recording self) 2 3 h w (enumerate 0 frames) hp ?Z =
          (fst (grid_loop (recording self) 2 3 h w (enumerate 0 frames) hp ?Z), Inr g)"
        by (metis prod.collapse)
      from create_grid_display_first [OF _ _ lay this, of name a rest] A rec
      show "fst (create_grid_display self hp frames) = Inl AttributeError" by simp
    qed
  qed
  from lay eq placed show ?thesis by blast
qed

theorem grid_drops_beyond_capacity_witness:
  "create_grid_display (MultiCameraRecorder_init [])
     [Pixels 4 6 (0::nat), Pixels 4 6 1, Pixels 4 6 2, Pixels 4 6 3, Pixels 4 6 4, Pixels 4 6 5,
      Pixels 4 6 6]
     [(''c0'', Some 0), (''c1'', Some 1), (''c2'', Some 2), (''c3'', Some 3),
      (''c4'', Some 4), (''c5'', Some 5), (''c6'', Some 6)] =
   (Inr (Some
      (SetSlice (SetSlice (SetSlice (SetSlice (SetSlice (SetSlice (Zeros 4 9)
         0 2 0 3 (Resize (Pixels 4 6 0) (3, 2)))
         0 2 3 6 (Resize (Pixels 4 6 1) (3, 2)))
         0 2 6 9 (Resize (Pixels 4 6 2) (3, 2)))
         2 4 0 3 (Resize (Pixels 4 6 3) (3, 2)))
         2 4 3 6 (Resize (Pixels 4 6 4) (3, 2)))
         2 4 6 9 (Resize (Pixels 4 6 5) (3, 2)))),
    [Pixels 4 6 0, Pixels 4 6 1, Pixels 4 6 2, Pixels 4 6 3, Pixels 4 6 4, Pixels 4 6 5,
     Pixels 4 6 6]) \<and>
   fst (create_grid_display ((MultiCameraRecorder_init [])\<lparr>recording := True\<rparr>)
     [Pixels 4 6 (0::nat), Pixels 4 6 1, Pixels 4 6 2, Pixels 4 6 3, Pixels 4 6 4, Pixels 4 6 5,
      Pixels 4 6 6]
     [(''c0'', Some 0), (''c1'', Some 1), (''c2'', Some 2), (''c3'', Some 3),
      (''c4'', Some 4), (''c5'', Some 5), (''c6'', Some 6)]) = Inl AttributeError"
proof -
  let ?F = "[(''c0'', Some (0::nat)), (''c1'', Some 1), (''c2'', Some 2), (''c3'', Some 3),
             (''c4'', Some 4), (''c5'', Some 5), (''c6'', Some 6)]"
  let ?H = "[Pixels 4 6 (0::nat), Pixels 4 6 1, Pixels 4 6 2, Pixels 4 6 3, Pixels 4 6 4,
             Pixels 4 6 5, Pixels 4 6 6]"
  let ?I = "MultiCameraRecorder_init [] :: nat MultiCameraRecorder"
  let ?R = "(MultiCameraRecorder_init [])\<lparr>recording := True\<rparr> :: nat MultiCameraRecorder"
  have len: "6 < length ?F" by simp
  have pre: "?F = (''c0'', Some 0) # tl ?F \<and> shape (?H ! 0) = (4, 6) \<and> (2::nat) \<le> 4 \<and> (2::nat) \<le> 6 \<and>
      (\<forall>b \<in> set (present (map snd (take 6 ?F))).
         0 < fst (shape (?H ! b)) \<and> 0 < snd (shape (?H ! b)))"
    by simp
  have idle: "\<not> recording ?I" and rec: "recording ?R"
    by (simp_all add: MultiCameraRecorder_init_def)
  note T = grid_drops_beyond_capacity [OF len, THEN conjunct2, THEN conjunct2,
      THEN spec, THEN spec, THEN spec, THEN spec, THEN spec, THEN mp, OF pre]
  from T [of ?I, THEN conjunct1, THEN mp, OF idle]
  have a: "create_grid_display ?I ?H ?F =
      (Inr (Some (tiled_row_major 3 (4 div 2) (6 div 2) ?H 0 (map snd (take 6 ?F))
                    (Zeros (4 div 2 * 2) (6 div 2 * 3)))), ?H)" .
  from T [of ?R, THEN conjunct2, THEN mp, OF rec]
  have b: "fst (create_grid_display ?R ?H ?F) = Inl AttributeError" .
  have "tiled_row_major 3 (4 div 2) (6 div 2) ?H 0 (map snd (take 6 ?F))
          (Zeros (4 div 2 * 2) (6 div 2 * 3)) =
        SetSlice (SetSlice (SetSlice (SetSlice (SetSlice (SetSlice (Zeros 4 9)
         0 2 0 3 (Resize (Pixels 4 6 0) (3, 2)))
         0 2 3 6 (Resize (Pixels 4 6 1) (3, 2)))
         0 2 6 9 (Resize (Pixels 4 6 2) (3, 2)))
         2 4 0 3 (Resize (Pixels 4 6 3) (3, 2)))
         2 4 3 6 (Resize (Pixels 4 6 4) (3, 2)))
         2 4 6 9 (Resize (Pixels 4 6 5) (3, 2))"
    by (simp add: place_tile_def)
  with a b show ?thesis by simp
qed

section \<open>What create\_grid\_display does to the caller's frames\<close>

lemma present_append: "present (xs @ ys) = present xs @ present ys"
  by (induction xs rule: present.induct) simp_all

lemma present_mem: "a \<in> set (present xs) \<longleftrightarrow> Some a \<in> set xs"
  by (induction xs rule: present.induct) auto



lemma grid_loop_untouched:
  "a \<notin> set (present (map (\<lambda>e. snd (snd e)) es)) \<Longrightarrow>
   fst (grid_loop rec rows cols h w es hp grid) ! a = hp ! a"
proof (induction es arbitrary: hp grid rec)
  case Nil
  show ?case by simp
next
  case (Cons e es)
  obtain idx name f where e: "e = (idx, name, f)" by (cases e)
  show ?case
  proof (cases f)
    case None
    with Cons show ?thesis by (simp add: e)
  next
    case (Some frame)
    with Cons.prems e have ne: "a \<noteq> frame"
      and rest: "a \<notin> set (present (map (\<lambda>e. snd (snd e)) es))" by auto
    from ne have "draw_border h w frame hp ! a = hp ! a" by (simp add: draw_border_def)
    with Some ne Cons.IH [OF rest] show ?thesis
      by (simp add: e Let_def split: sum.splits)
  qed
qed


lemma create_grid_display_snd:
  assumes "frames = (name, Some a) # rest" "shape (hp ! a) = (h, w)"
    "grid_layout (length frames) = (rows, cols)"
  shows "snd (create_grid_display self hp frames) =
         fst (grid_loop (recording self) rows cols h w (enumerate 0 frames) hp
                (Zeros (h div 2 * rows) (w div 2 * cols)))"
proof -
  let ?gl = "grid_loop (recording self) rows cols h w (enumerate 0 frames) hp
               (Zeros (h div 2 * rows) (w div 2 * cols))"
  have gl: "?gl = (fst ?gl, snd ?gl)" by simp
  show ?thesis
    unfolding create_grid_display_first [OF assms gl] by (simp split: sum.splits)
qed

lemma create_grid_display_absent:
  "frames = [] \<or> (\<exists>name rest. frames = (name, None) # rest) \<Longrightarrow>
   create_grid_display self hp frames = (Inr None, hp)"
  by (auto simp: create_grid_display_def split: prod.splits)

lemma frames_first:
  "\<not> (frames = [] \<or> (\<exists>name rest. frames = (name, None) # rest)) \<Longrightarrow>
   \<exists>name a rest. frames = (name, Some a) # rest"
  by (cases frames; cases "hd frames"; cases "snd (hd frames)") auto


lemma create_grid_display_store:
  assumes "frames = (name, Some a) # rest" "shape (hp ! a) = (h, w)"
    "grid_layout (length frames) = (rows, cols)"
  shows "snd (create_grid_display self hp frames) =
         fst (grid_loop (recording self) rows cols h w
                (enumerate 0 (take (rows * cols) frames)) hp
                (Zeros (h div 2 * rows) (w div 2 * cols)))"
  unfolding create_grid_display_snd [OF assms]
  by (rule arg_cong [where f = fst]) (rule grid_loop_take [OF grid_layout_cols [OF assms(3)]])

lemma create_grid_display_untouched_beyond:
  assumes "grid_layout (length frames) = (rows, cols)"
    and "a \<notin> set (present (map snd (take (rows * cols) frames)))"
  shows "snd (create_grid_display self hp frames) ! a = hp ! a"
proof (cases "frames = [] \<or> (\<exists>name rest. frames = (name, None) # rest)")
  case True
  then show ?thesis by (simp only: create_grid_display_absent snd_conv)
next
  case False
  from frames_first [OF False] obtain name a0 rest where fr: "frames = (name, Some a0) # rest"
    by (elim exE)
  obtain h w where sh: "shape (hp ! a0) = (h, w)" by (cases "shape (hp ! a0)")
  from assms(2) have "a \<notin> set (present (map (\<lambda>e. snd (snd e))
      (enumerate 0 (take (rows * cols) frames))))"
    unfolding enumerate_refs .
  then show ?thesis
    unfolding create_grid_display_store [OF fr sh assms(1)] by (rule grid_loop_untouched)
qed





section \<open>Properties of NDIReceiver\<close>

text \<open>
  C9: \<open>get_latest_frame\<close> returns \<open>None\<close> and leaves the store alone when no frame has
  been stored. Otherwise it returns a reference \<open>b\<close> to a new buffer with the contents
  of the register: whatever is written to \<open>b\<close> afterwards, every buffer that existed
  before the call (the register and the frames returned by earlier calls among them)
  keeps its contents, and a later call returns yet another buffer with the register's
  contents, whose mutation leaves \<open>b\<close> and the register alone.
\<close>

theorem get_latest_frame_copy:
  "(latest_frame self = None \<longrightarrow> get_latest_frame hp self = (None, hp)) \<and>
   (\<forall>a. latest_frame self = Some a \<and> a < length hp \<longrightarrow>
      (\<exists>b hp1. get_latest_frame hp self = (Some b, hp1) \<and>
         b = length hp \<and> hp1 = hp @ [hp ! a] \<and> hp1 ! b = hp ! a \<and>
         (\<forall>v c. c < length hp \<longrightarrow> (hp1[b := v]) ! c = hp ! c) \<and>
         (\<forall>v. \<exists>b2 hp2. get_latest_frame (hp1[b := v]) self = (Some b2, hp2) \<and>
            b2 \<noteq> b \<and> hp2 ! b2 = hp ! a \<and> hp2 ! b = v \<and>
            (\<forall>v2. (hp2[b2 := v2]) ! b = v \<and> (hp2[b2 := v2]) ! a = hp ! a))))"
  by (auto simp: get_latest_frame_def nth_append)

theorem get_latest_frame_copy_witness:
  "get_latest_frame [Pixels 2 2 (7::nat)] ((NDIReceiver_init ''cam'')\<lparr>latest_frame := Some 0\<rparr>) =
     (Some 1, [Pixels 2 2 7, Pixels 2 2 7]) \<and>
   get_latest_frame [Pixels 2 2 (7::nat)] (NDIReceiver_init ''cam'') = (None, [Pixels 2 2 7]) \<and>
   ([Pixels 2 2 (7::nat), Pixels 2 2 7][1 := Zeros 2 2]) ! 0 = Pixels 2 2 7"
  using get_latest_frame_copy [of "(NDIReceiver_init ''cam'')\<lparr>latest_frame := Some 0\<rparr>"
      "[Pixels 2 2 (7::nat)]"]
    get_latest_frame_copy [of "NDIReceiver_init ''cam''" "[Pixels 2 2 (7::nat)]"]
  by (auto simp: NDIReceiver_init_def)

section \<open>Properties of connect\_sources\<close>

lemma poll_sources_found:
  "list_ex P (poll_sources get name n i srcs) \<longleftrightarrow>
   (if n = 0 then list_ex P srcs else (\<exists>j<n. list_ex P (get (i + j))))"
  if P: "P = (\<lambda>s. ndi_name s = name)"
proof (induction n arbitrary: i srcs)
  case 0
  show ?case by simp
next
  case (Suc n)
  show ?case
  proof (cases "list_ex P (get i)")
    case True
    then have "\<exists>j<Suc n. list_ex P (get (i + j))" by (intro exI [of _ 0]) simp
    with True show ?thesis by (simp add: P Let_def)
  next
    case False
    have "(\<exists>j<Suc n. list_ex P (get (i + j))) \<longleftrightarrow> (\<exists>j<n. list_ex P (get (Suc i + j)))"
      using False by (auto simp: less_Suc_eq_0_disj)
    with False Suc [of "Suc i" "get i"] show ?thesis
      by (auto simp: P Let_def)
  qed
qed

lemma connect_succeeds_iff:
  "fst (connect env (NDIReceiver_init name)) \<longleftrightarrow>
   initialize_ok env \<and> find_create_ok env \<and>
   (\<exists>j<20. \<exists>s \<in> set (current_sources env j). ndi_name s = name) \<and> recv_create_ok env"
proof -
  let ?P = "\<lambda>s. ndi_name s = name"
  let ?srcs = "poll_sources (current_sources env) name 20 0 []"
  have found: "list_ex ?P ?srcs \<longleftrightarrow> (\<exists>j<20. \<exists>s \<in> set (current_sources env j). ndi_name s = name)"
    using poll_sources_found [of ?P name "current_sources env" 20 0 "[]"]
    by (simp add: list_ex_iff)
  have "find ?P ?srcs = None \<longleftrightarrow> \<not> list_ex ?P ?srcs"
    by (auto simp: find_None_iff list_ex_iff)
  with found show ?thesis
    by (cases "find ?P ?srcs") (auto simp: connect_def NDIReceiver_init_def Let_def)
qed

lemma rx_start_fst: "fst (rx_start env self) = fst (connect env self)"
  by (cases "connect env self") (auto simp: rx_start_def split: bool.splits)

lemma rx_start_receiver:
  "rx_start env (NDIReceiver_init name) = (True, r) \<Longrightarrow> source_name r = name \<and> rx_running r"
  by (auto simp: rx_start_def connect_def NDIReceiver_init_def Let_def
      split: if_splits option.splits bool.splits prod.splits)

lemma connect_loop_keys:
  "map_of (connect_loop world i names rs) name \<noteq> None \<longleftrightarrow>
   map_of rs name \<noteq> None \<or>
   (\<exists>j<length names. names ! j = name \<and> fst (rx_start (world (i + j)) (NDIReceiver_init (names ! j))))"
proof (induction names arbitrary: i rs)
  case Nil
  show ?case by simp
next
  case (Cons n names)
  obtain ok r where st: "rx_start (world i) (NDIReceiver_init n) = (ok, r)"
    by (cases "rx_start (world i) (NDIReceiver_init n)")
  show ?case
  proof (cases ok)
    case True
    with st Cons [of "Suc i" "AList.update n r rs"] show ?thesis
      by (auto simp: less_Suc_eq_0_disj update_conv')
  next
    case False
    with st Cons [of "Suc i" rs] show ?thesis
      by (auto simp: less_Suc_eq_0_disj)
  qed
qed

lemma connect_loop_values:
  "(\<forall>name r. map_of rs name = Some r \<longrightarrow> source_name r = name \<and> rx_running r) \<Longrightarrow>
   map_of (connect_loop world i names rs) name = Some r \<Longrightarrow> source_name r = name \<and> rx_running r"
proof (induction names arbitrary: i rs)
  case Nil
  then show ?case by simp
next
  case (Cons n names)
  obtain ok r1 where st: "rx_start (world i) (NDIReceiver_init n) = (ok, r1)"
    by (cases "rx_start (world i) (NDIReceiver_init n)")
  show ?case
  proof (cases ok)
    case True
    with st have r1: "source_name r1 = n \<and> rx_running r1" by (simp add: rx_start_receiver)
    have inv: "\<forall>name r. map_of (AList.update n r1 rs) name = Some r \<longrightarrow>
                 source_name r = name \<and> rx_running r"
      using Cons.prems(1) r1 by (auto simp: update_conv')
    from Cons.IH [OF inv, of "Suc i"] Cons.prems(2) st True show ?thesis by simp
  next
    case False
    from Cons.IH [OF Cons.prems(1), of "Suc i"] Cons.prems(2) st False show ?thesis by simp
  qed
qed

text \<open>
  C6: on a new recorder \<open>connect_sources\<close> returns \<open>True\<close> exactly when some \<open>start\<close> call
  succeeded. A name is in the registry exactly when some attempt for that name
  succeeded: a source whose attempt fails is left out (source names are unique
  identifiers, so each source is requested once and has one attempt), every source with
  a successful attempt is present, and the receiver stored under a name is one for that
  name, running. A failed attempt never ends the loop. An attempt succeeds exactly when
  the library initialises, the finder is created, the name is in one of the first 20
  answers of the source list and the receiver is created.
\<close>

theorem connect_sources_registry:
  assumes cs: "connect_sources world (MultiCameraRecorder_init names) = (ok, self)"
  shows "(ok \<longleftrightarrow> (\<exists>j<length names. fst (rx_start (world j) (NDIReceiver_init (names ! j))))) \<and>
    (\<forall>name. map_of (receivers self) name \<noteq> None \<longleftrightarrow>
       (\<exists>j<length names. names ! j = name \<and> fst (rx_start (world j) (NDIReceiver_init (names ! j))))) \<and>
    (\<forall>j<length names. \<not> fst (rx_start (world j) (NDIReceiver_init (names ! j))) \<and>
        (\<forall>k<length names. k \<noteq> j \<longrightarrow> names ! k \<noteq> names ! j) \<longrightarrow>
        map_of (receivers self) (names ! j) = None) \<and>
    (distinct names \<longrightarrow>
       (\<forall>j<length names. \<not> fst (rx_start (world j) (NDIReceiver_init (names ! j))) \<longrightarrow>
          map_of (receivers self) (names ! j) = None) \<and>
       (\<forall>j<length names. fst (rx_start (world j) (NDIReceiver_init (names ! j))) \<longrightarrow>
          map_of (receivers self) (names ! j) \<noteq> None)) \<and>
    (\<forall>name r. map_of (receivers self) name = Some r \<longrightarrow> source_name r = name \<and> rx_running r) \<and>
    (\<forall>j name. fst (rx_start (world j) (NDIReceiver_init name)) \<longleftrightarrow>
        initialize_ok (world j) \<and> find_create_ok (world j) \<and>
        (\<exists>i<20. \<exists>s \<in> set (current_sources (world j) i). ndi_name s = name) \<and>
        recv_create_ok (world j))"
proof -
  let ?rs = "connect_loop world 0 names []"
  from cs have rs: "receivers self = ?rs" and ok: "ok \<longleftrightarrow> ?rs \<noteq> []"
    by (auto simp: connect_sources_def MultiCameraRecorder_init_def Let_def split: if_splits)
  have keys: "map_of (receivers self) name \<noteq> None \<longleftrightarrow>
       (\<exists>j<length names. names ! j = name \<and> fst (rx_start (world j) (NDIReceiver_init (names ! j))))"
    for name
    unfolding rs using connect_loop_keys [of world 0 names "[]" name] by simp
  have "?rs \<noteq> [] \<longleftrightarrow> (\<exists>name. map_of ?rs name \<noteq> None)"
    by (cases ?rs) (auto simp del: connect_loop.simps)
  with keys rs ok have first:
    "ok \<longleftrightarrow> (\<exists>j<length names. fst (rx_start (world j) (NDIReceiver_init (names ! j))))"
    by auto
  have once: "map_of (receivers self) (names ! j) = None"
    if "j < length names" "\<not> fst (rx_start (world j) (NDIReceiver_init (names ! j)))"
       "\<forall>k<length names. k \<noteq> j \<longrightarrow> names ! k \<noteq> names ! j" for j
    using that keys [of "names ! j"] by metis
  have vals: "source_name r = name \<and> rx_running r" if "map_of (receivers self) name = Some r" for name r
    using that connect_loop_values [of "[]" world 0 names name r] rs by simp
  have poll: "fst (rx_start (world j) (NDIReceiver_init name)) \<longleftrightarrow>
        initialize_ok (world j) \<and> find_create_ok (world j) \<and>
        (\<exists>i<20. \<exists>s \<in> set (current_sources (world j) i). ndi_name s = name) \<and>
        recv_create_ok (world j)" for j name
    by (simp only: rx_start_fst connect_succeeds_iff)
  have uniq: "(\<forall>j<length names. \<not> fst (rx_start (world j) (NDIReceiver_init (names ! j))) \<longrightarrow>
          map_of (receivers self) (names ! j) = None) \<and>
       (\<forall>j<length names. fst (rx_start (world j) (NDIReceiver_init (names ! j))) \<longrightarrow>
          map_of (receivers self) (names ! j) \<noteq> None)" if d: "distinct names"
  proof (intro conjI allI impI)
    fix j assume j: "j < length names"
      and f: "\<not> fst (rx_start (world j) (NDIReceiver_init (names ! j)))"
    from d j have "\<forall>k<length names. k \<noteq> j \<longrightarrow> names ! k \<noteq> names ! j"
      by (simp add: nth_eq_iff_index_eq)
    with j f show "map_of (receivers self) (names ! j) = None" by (rule once)
  next
    fix j assume "j < length names"
      and "fst (rx_start (world j) (NDIReceiver_init (names ! j)))"
    then show "map_of (receivers self) (names ! j) \<noteq> None"
      unfolding keys by blast
  qed
  from first keys once uniq vals poll show ?thesis by blast
qed

theorem connect_sources_registry_witness:
  "connect_sources
     (\<lambda>j. \<lparr>initialize_ok = True, find_create_ok = True,
            current_sources =
              (\<lambda>i. if j = 0 \<and> i = 3 then [\<lparr>ndi_name = ''cam1'', url_address = ''10.0.0.7''\<rparr>]
                    else []),
            recv_create_ok = True\<rparr>)
     (MultiCameraRecorder_init [''cam1'', ''cam2''] :: unit MultiCameraRecorder) =
   (True,
    \<lparr>source_names = [''cam1'', ''cam2''],
     receivers = [(''cam1'', \<lparr>source_name = ''cam1'', rx_running = True,
           ndi_recv = Some \<lparr>ndi_name = ''cam1'', url_address = ''10.0.0.7''\<rparr>,
           latest_frame = None\<rparr>)],
     writers = [], recording = False, mc_running = False, output_dir = None\<rparr>) \<and>
   fst (rx_start \<lparr>initialize_ok = True, find_create_ok = True,
            current_sources =
              (\<lambda>i. if i = 3 then [\<lparr>ndi_name = ''cam1'', url_address = ''10.0.0.7''\<rparr>]
                    else []),
            recv_create_ok = True\<rparr> (NDIReceiver_init ''cam1''))"
proof -
  let ?W = "\<lambda>j::nat. \<lparr>initialize_ok = True, find_create_ok = True,
            current_sources =
              (\<lambda>i::nat. if j = 0 \<and> i = 3 then [\<lparr>ndi_name = ''cam1'', url_address = ''10.0.0.7''\<rparr>]
                    else []),
            recv_create_ok = True\<rparr>"
  let ?S = "\<lparr>source_names = [''cam1'', ''cam2''],
     receivers = [(''cam1'', \<lparr>source_name = ''cam1'', rx_running = True,
           ndi_recv = Some \<lparr>ndi_name = ''cam1'', url_address = ''10.0.0.7''\<rparr>,
           latest_frame = None\<rparr>)],
     writers = [], recording = False, mc_running = False, output_dir = None\<rparr> :: unit MultiCameraRecorder"
  have cs: "connect_sources ?W (MultiCameraRecorder_init [''cam1'', ''cam2'']) = (True, ?S)"
    by (simp add: connect_sources_def MultiCameraRecorder_init_def rx_start_def connect_def
      NDIReceiver_init_def Let_def eval_nat_numeral)
  from connect_sources_registry [OF cs] have
    "\<exists>j<length [''cam1'', ''cam2''].
       fst (rx_start (?W j) (NDIReceiver_init ([''cam1'', ''cam2''] ! j)))" by blast
  then have "fst (rx_start (?W 0) (NDIReceiver_init ''cam1'')) \<or>
             fst (rx_start (?W 1) (NDIReceiver_init ''cam2''))"
    by (auto simp: less_Suc_eq_0_disj numeral_2_eq_2)
  moreover have "\<not> fst (rx_start (?W 1) (NDIReceiver_init ''cam2''))"
    by (simp add: rx_start_def connect_def NDIReceiver_init_def Let_def eval_nat_numeral)
  ultimately have "fst (rx_start (?W 0) (NDIReceiver_init ''cam1''))" by blast
  with cs show ?thesis by simp
qed

section \<open>Properties of the main loop\<close>

lemma poll_receivers_keys:
  "map_of (snd (snd (poll_receivers rec rs hp frames ws))) name = None \<longleftrightarrow> map_of ws name = None"
proof (induction rs arbitrary: hp frames ws)
  case Nil
  show ?case by simp
next
  case (Cons p rs)
  obtain n r where p: "p = (n, r)" by (cases p)
  show ?case
    unfolding p
    by (cases "latest_frame r"; cases "map_of ws n")
       (simp_all add: get_latest_frame_def Cons update_conv')
qed

lemma poll_receivers_other:
  "name \<notin> fst ` set rs \<Longrightarrow>
   map_of (snd (snd (poll_receivers rec rs hp frames ws))) name = map_of ws name"
proof (induction rs arbitrary: hp frames ws)
  case Nil
  show ?case by simp
next
  case (Cons p rs)
  obtain n r where p: "p = (n, r)" by (cases p)
  from Cons.prems p have ne: "n \<noteq> name" and rest: "name \<notin> fst ` set rs" by auto
  show ?case
    unfolding p using ne
    by (cases "latest_frame r"; cases "map_of ws n")
       (simp_all add: get_latest_frame_def Cons.IH [OF rest] update_conv')
qed

lemma poll_receivers_idle:
  "snd (snd (poll_receivers False rs hp frames ws)) = ws"
proof (induction rs arbitrary: hp frames ws)
  case Nil
  show ?case by simp
next
  case (Cons p rs)
  obtain n r where p: "p = (n, r)" by (cases p)
  show ?case
    unfolding p by (cases "latest_frame r") (simp_all add: get_latest_frame_def Cons)
qed

lemma poll_receivers_store:
  "\<exists>ext. fst (poll_receivers rec rs hp frames ws) = hp @ ext"
proof (induction rs arbitrary: hp frames ws)
  case Nil
  show ?case by simp
next
  case (Cons p rs)
  obtain n r where p: "p = (n, r)" by (cases p)
  show ?case
  proof (cases "latest_frame r")
    case None
    with Cons [of hp frames ws] show ?thesis by (simp add: p get_latest_frame_def)
  next
    case (Some a)
    let ?ws1 = "if rec then (case map_of ws n of None \<Rightarrow> ws
                 | Some writer \<Rightarrow>
                     AList.update n (writer\<lparr>written := written writer @ [(hp @ [hp ! a]) ! length hp]\<rparr>) ws)
                else ws"
    from Cons [of "hp @ [hp ! a]" "AList.update n (Some (length hp)) frames" ?ws1]
    obtain ext where "fst (poll_receivers rec rs (hp @ [hp ! a])
        (AList.update n (Some (length hp)) frames) ?ws1) = hp @ [hp ! a] @ ext" by auto
    with Some show ?thesis by (simp add: p get_latest_frame_def)
  qed
qed

lemma poll_receivers_written:
  "distinct (map fst rs) \<Longrightarrow> (name, r) \<in> set rs \<Longrightarrow> latest_frame r = Some a \<Longrightarrow>
   a < length hp \<Longrightarrow> map_of ws name = Some wr \<Longrightarrow>
   map_of (snd (snd (poll_receivers True rs hp frames ws))) name =
     Some (wr\<lparr>written := written wr @ [hp ! a]\<rparr>)"
proof (induction rs arbitrary: hp frames ws)
  case Nil
  then show ?case by simp
next
  case (Cons p rs)
  obtain n r0 where p: "p = (n, r0)" by (cases p)
  show ?case
  proof (cases "n = name")
    case True
    with Cons.prems p have r0: "r0 = r" and rest: "name \<notin> fst ` set rs"
      by (auto simp: image_iff)
    from True r0 Cons.prems show ?thesis
      by (simp add: p get_latest_frame_def poll_receivers_other [OF rest] update_conv')
  next
    case False
    with Cons.prems p have mem: "(name, r) \<in> set rs" and dist: "distinct (map fst rs)" by auto
    show ?thesis
    proof (cases "latest_frame r0")
      case None
      with Cons.IH [OF dist mem Cons.prems(3) Cons.prems(4) Cons.prems(5), of frames]
      show ?thesis by (simp add: p get_latest_frame_def)
    next
      case (Some a0)
      let ?hp1 = "hp @ [hp ! a0]"
      from Cons.prems have a: "a < length ?hp1" and same: "?hp1 ! a = hp ! a"
        by (simp_all add: nth_append)
      let ?ws1 = "case map_of ws n of None \<Rightarrow> ws
                 | Some writer \<Rightarrow>
                     AList.update n (writer\<lparr>written := written writer @ [?hp1 ! length hp]\<rparr>) ws"
      from False Cons.prems(5) have ws1: "map_of ?ws1 name = Some wr"
        by (cases "map_of ws n") (simp_all add: update_conv')
      from Cons.IH [OF dist mem Cons.prems(3) a ws1, of "AList.update n (Some (length hp)) frames"]
        same Some
      show ?thesis by (simp add: p get_latest_frame_def)
    qed
  qed
qed

lemma update_values: "set (map snd (AList.update k v al)) \<subseteq> insert v (set (map snd al))"
  by (induction al) auto

lemma poll_receivers_fresh:
  "\<forall>b \<in> set (present (map snd frames)). n0 \<le> b \<Longrightarrow> n0 \<le> length hp \<Longrightarrow>
   \<forall>b \<in> set (present (map snd (fst (snd (poll_receivers rec rs hp frames ws))))). n0 \<le> b"
proof (induction rs arbitrary: hp frames ws)
  case Nil
  then show ?case by simp
next
  case (Cons p rs)
  obtain n r where p: "p = (n, r)" by (cases p)
  show ?case
  proof (cases "latest_frame r")
    case None
    with Cons.IH [OF Cons.prems, of ws] show ?thesis by (simp add: p get_latest_frame_def)
  next
    case (Some a)
    have "\<forall>b \<in> set (present (map snd (AList.update n (Some (length hp)) frames))). n0 \<le> b"
    proof
      fix b assume "b \<in> set (present (map snd (AList.update n (Some (length hp)) frames)))"
      then have "Some b \<in> set (map snd (AList.update n (Some (length hp)) frames))"
        by (simp only: present_mem)
      with update_values [of n "Some (length hp)" frames]
      have "b = length hp \<or> Some b \<in> set (map snd frames)" by auto
      then show "n0 \<le> b"
      proof
        assume "b = length hp"
        with Cons.prems(2) show ?thesis by simp
      next
        assume "Some b \<in> set (map snd frames)"
        then have "b \<in> set (present (map snd frames))" by (simp only: present_mem)
        with Cons.prems(1) show ?thesis by blast
      qed
    qed
    moreover from Cons.prems have "n0 \<le> length (hp @ [hp ! a])" by simp
    ultimately show ?thesis
      using Cons.IH [of "AList.update n (Some (length hp)) frames" "hp @ [hp ! a]"] Some
      by (simp add: p get_latest_frame_def)
  qed
qed

lemma create_grid_display_untouched:
  assumes "a \<notin> set (present (map snd frames))"
  shows "snd (create_grid_display self hp frames) ! a = hp ! a"
proof -
  obtain rows cols where lay: "grid_layout (length frames) = (rows, cols)"
    by (cases "grid_layout (length frames)")
  have "set (map snd (take (rows * cols) frames)) \<subseteq> set (map snd frames)"
    by (simp only: take_map [symmetric] set_take_subset)
  with assms have "a \<notin> set (present (map snd (take (rows * cols) frames)))"
    unfolding present_mem by blast
  with lay show ?thesis by (rule create_grid_display_untouched_beyond)
qed

text \<open>
  C3: in a round of the loop while recording is active, a source with a frame in its
  register and a writer under its name gets exactly the contents of the register
  appended to its file: the frame is written in the poll, before \<open>create_grid_display\<close>
  draws the border on the copy. The register still holds the same contents after the
  round. (The registry is a dictionary, so its names are distinct, and the register
  refers to a buffer of the store.)
\<close>

theorem frames_written_before_overlay:
  assumes "recording self" and "distinct (map fst (receivers self))"
    and "(name, r) \<in> set (receivers self)" and "latest_frame r = Some a" and "a < length hp"
    and "map_of (writers self) name = Some wr"
    and "poll_and_display hp self = (grid, hp1, self1)"
  shows "map_of (writers self1) name = Some (wr\<lparr>written := written wr @ [hp ! a]\<rparr>) \<and>
         hp1 ! a = hp ! a"
proof -
  obtain hp0 frames ws where pr:
    "poll_receivers (recording self) (receivers self) hp [] (writers self) = (hp0, frames, ws)"
    by (cases "poll_receivers (recording self) (receivers self) hp [] (writers self)")
  with assms(7) have self1: "self1 = self\<lparr>writers := ws\<rparr>"
    and hp1: "hp1 = snd (create_grid_display (self\<lparr>writers := ws\<rparr>) hp0 frames)"
    by (auto simp: poll_and_display_def Let_def split: prod.splits)
  from poll_receivers_written [OF assms(2,3,4,5,6), of "[]"] pr assms(1)
  have written: "map_of ws name = Some (wr\<lparr>written := written wr @ [hp ! a]\<rparr>)" by simp
  from poll_receivers_store [of "recording self" "receivers self" hp "[]" "writers self"] pr
  obtain ext where ext: "hp0 = hp @ ext" by auto
  from poll_receivers_fresh [of "[]" "length hp" hp "recording self" "receivers self" "writers self"] pr
  have "\<forall>b \<in> set (present (map snd frames)). length hp \<le> b" by simp
  with assms(5) have "a \<notin> set (present (map snd frames))" by auto
  then have "hp1 ! a = hp0 ! a" unfolding hp1 by (rule create_grid_display_untouched)
  with ext assms(5) have "hp1 ! a = hp ! a" by (simp add: nth_append)
  with written self1 show ?thesis by simp
qed

theorem frames_written_before_overlay_witness:
  "map_of (writers (snd (snd (poll_and_display [Pixels 4 6 (9::nat)]
      \<lparr>source_names = [''cam''],
       receivers = [(''cam'', \<lparr>source_name = ''cam'', rx_running = True, ndi_recv = None,
                              latest_frame = Some 0\<rparr>)],
       writers = [(''cam'', \<lparr>output_path = ''recordings/t/cam.mp4'', fourcc = ''mp4v'', fps = 60,
                            frame_size = (6, 4), written = []\<rparr>)],
       recording = True, mc_running = True, output_dir = Some ''recordings/t''\<rparr>)))) ''cam'' =
     Some \<lparr>output_path = ''recordings/t/cam.mp4'', fourcc = ''mp4v'', fps = 60,
           frame_size = (6, 4), written = [Pixels 4 6 9]\<rparr> \<and>
   fst (snd (poll_and_display [Pixels 4 6 (9::nat)]
      \<lparr>source_names = [''cam''],
       receivers = [(''cam'', \<lparr>source_name = ''cam'', rx_running = True, ndi_recv = None,
                              latest_frame = Some 0\<rparr>)],
       writers = [(''cam'', \<lparr>output_path = ''recordings/t/cam.mp4'', fourcc = ''mp4v'', fps = 60,
                            frame_size = (6, 4), written = []\<rparr>)],
       recording = True, mc_running = True, output_dir = Some ''recordings/t''\<rparr>)) =
     [Pixels 4 6 9, Rectangle (Pixels 4 6 9) (0, 0) (5, 3) (0, 0, 255) 20]"
proof -
  let ?r = "\<lparr>source_name = ''cam'', rx_running = True, ndi_recv = None, latest_frame = Some 0\<rparr>"
  let ?wr = "\<lparr>output_path = ''recordings/t/cam.mp4'', fourcc = ''mp4v'', fps = 60,
              frame_size = (6, 4), written = []\<rparr> :: nat VideoWriter"
  let ?S = "\<lparr>source_names = [''cam''], receivers = [(''cam'', ?r)], writers = [(''cam'', ?wr)],
             recording = True, mc_running = True, output_dir = Some ''recordings/t''\<rparr>"
  let ?H = "[Pixels 4 6 (9::nat)]"
  have store: "fst (snd (poll_and_display ?H ?S)) =
      [Pixels 4 6 9, Rectangle (Pixels 4 6 9) (0, 0) (5, 3) (0, 0, 255) 20]"
    by (simp add: poll_and_display_def get_latest_frame_def create_grid_display_def
        grid_layout_def cv2_resize_def draw_border_def Let_def)
  have pd: "poll_and_display ?H ?S =
      (fst (poll_and_display ?H ?S), fst (snd (poll_and_display ?H ?S)),
       snd (snd (poll_and_display ?H ?S)))" by simp
  have "map_of (writers (snd (snd (poll_and_display ?H ?S)))) ''cam'' =
        Some (?wr\<lparr>written := written ?wr @ [?H ! 0]\<rparr>)"
    using frames_written_before_overlay [of ?S "''cam''" ?r 0 ?H ?wr, OF _ _ _ _ _ _ pd]
    by simp
  with store show ?thesis by simp
qed

lemma open_writers_none:
  "\<forall>p \<in> set rs. latest_frame (snd p) = None \<Longrightarrow> open_writers dir rs hp ws = (hp, ws)"
proof (induction rs)
  case Nil
  show ?case by simp
next
  case (Cons p rs)
  obtain n r where p: "p = (n, r)" by (cases p)
  with Cons show ?case by (simp add: get_latest_frame_def)
qed

lemma open_writers_skip:
  "\<forall>r. (name, r) \<in> set rs \<longrightarrow> latest_frame r = None \<Longrightarrow>
   map_of (snd (open_writers dir rs hp ws)) name = map_of ws name"
proof (induction rs arbitrary: hp ws)
  case Nil
  show ?case by simp
next
  case (Cons p rs)
  obtain n r where p: "p = (n, r)" by (cases p)
  from Cons.prems have rest: "\<forall>r. (name, r) \<in> set rs \<longrightarrow> latest_frame r = None" by simp
  show ?case
  proof (cases "latest_frame r")
    case None
    with Cons.IH [OF rest] show ?thesis by (simp add: p get_latest_frame_def)
  next
    case (Some a)
    with Cons.prems p have "n \<noteq> name" by auto
    with Some Cons.IH [OF rest] show ?thesis
      by (simp add: p get_latest_frame_def update_conv' split: prod.splits)
  qed
qed

lemma poll_and_display_keys:
  "poll_and_display hp self = (grid, hp1, self1) \<Longrightarrow>
   (map_of (writers self1) name = None \<longleftrightarrow> map_of (writers self) name = None) \<and>
   recording self1 = recording self \<and> receivers self1 = receivers self"
  using poll_receivers_keys [of "recording self" "receivers self" hp "[]" "writers self" name]
  by (auto simp: poll_and_display_def Let_def split: prod.splits)

lemma poll_and_display_idle:
  "poll_and_display hp self = (grid, hp1, self1) \<Longrightarrow> \<not> recording self \<Longrightarrow>
   writers self1 = writers self"
  using poll_receivers_idle [of "receivers self" hp "[]" "writers self"]
  by (auto simp: poll_and_display_def Let_def split: prod.splits)

lemma mc_stop_writers:
  "map_of (writers self) name = None \<Longrightarrow> map_of (writers (mc_stop self)) name = None"
  by (simp add: mc_stop_def stop_recording_def Let_def)

lemma run_loop_no_sink:
  "\<forall>rd \<in> set rounds. and (wait_key rd) 255 \<noteq> 114 \<Longrightarrow> map_of (writers self) name = None \<Longrightarrow>
   map_of (writers (fst (snd (run_loop rounds hp self shown)))) name = None"
proof (induction rounds arbitrary: hp self shown)
  case Nil
  then show ?case by simp
next
  case (Cons rd rounds)
  obtain hp1 rs1 where d1: "deliver (captured_before rd) hp (receivers self) = (hp1, rs1)"
    by (cases "deliver (captured_before rd) hp (receivers self)")
  obtain res hp2 self2 where pd: "poll_and_display hp1 (self\<lparr>receivers := rs1\<rparr>) = (res, hp2, self2)"
    by (cases "poll_and_display hp1 (self\<lparr>receivers := rs1\<rparr>)") auto
  obtain hp3 rs3 where d3: "deliver (captured_after rd) hp2 (receivers self2) = (hp3, rs3)"
    by (cases "deliver (captured_after rd) hp2 (receivers self2)")
  let ?self3 = "self2\<lparr>receivers := rs3\<rparr>"
  from poll_and_display_keys [OF pd, of name] Cons.prems(2)
  have w3: "map_of (writers ?self3) name = None" by simp
  from Cons.prems(1) have key: "and (wait_key rd) 255 \<noteq> 114"
    and rest: "\<forall>rd \<in> set rounds. and (wait_key rd) 255 \<noteq> 114" by simp_all
  from poll_and_display_keys [OF pd, of name] Cons.prems(2)
  have w2: "map_of (writers self2) name = None" by simp
  show ?case
  proof (cases res)
    case (Inl e)
    with d1 pd w2 show ?thesis by simp
  next
    case (Inr grid)
    show ?thesis
    proof (cases "and (wait_key rd) 255 = 113")
      case True
      with Inr d1 pd d3 mc_stop_writers [OF w3] show ?thesis by (simp add: Let_def)
    next
      case False
      with Inr d1 pd d3 key Cons.IH [OF rest w3] show ?thesis by (simp add: Let_def)
    qed
  qed
qed

text \<open>
  Whenever the loop is not recording there are no writers: \<open>stop_recording\<close> clears them
  and only \<open>start_recording\<close> adds any. So \<open>start_recording\<close> always starts from an empty
  mapping.
\<close>

lemma run_loop_idle_no_writers:
  "(\<not> recording self \<longrightarrow> writers self = []) \<Longrightarrow>
   \<not> recording (fst (snd (run_loop rounds hp self shown))) \<Longrightarrow>
   writers (fst (snd (run_loop rounds hp self shown))) = []"
proof (induction rounds arbitrary: hp self shown)
  case Nil
  then show ?case by simp
next
  case (Cons rd rounds)
  obtain hp1 rs1 where d1: "deliver (captured_before rd) hp (receivers self) = (hp1, rs1)"
    by (cases "deliver (captured_before rd) hp (receivers self)")
  obtain res hp2 self2 where pd: "poll_and_display hp1 (self\<lparr>receivers := rs1\<rparr>) = (res, hp2, self2)"
    by (cases "poll_and_display hp1 (self\<lparr>receivers := rs1\<rparr>)") auto
  obtain hp3 rs3 where d3: "deliver (captured_after rd) hp2 (receivers self2) = (hp3, rs3)"
    by (cases "deliver (captured_after rd) hp2 (receivers self2)")
  let ?self3 = "self2\<lparr>receivers := rs3\<rparr>"
  from poll_and_display_keys [OF pd] poll_and_display_idle [OF pd] Cons.prems(1)
  have inv3: "\<not> recording ?self3 \<longrightarrow> writers ?self3 = []" by auto
  obtain hp4 self4 where sr: "start_recording (clock rd) hp3 ?self3 = (hp4, self4)"
    by (cases "start_recording (clock rd) hp3 ?self3")
  then have rec4: "recording self4"
    by (auto simp: start_recording_def Let_def split: prod.splits)
  have stop: "\<not> recording (stop_recording ?self3) \<longrightarrow> writers (stop_recording ?self3) = []"
    by (simp add: stop_recording_def)
  have q: "writers (mc_stop ?self3) = []" if "\<not> recording (mc_stop ?self3)"
    using inv3 by (auto simp: mc_stop_def stop_recording_def Let_def split: if_splits)
  from poll_and_display_keys [OF pd] poll_and_display_idle [OF pd] Cons.prems(1)
  have inv2: "\<not> recording self2 \<longrightarrow> writers self2 = []" by auto
  consider (raised) e where "res = Inl e"
    | (quit) grid where "res = Inr grid" "and (wait_key rd) 255 = 113"
    | (toggle_off) grid where "res = Inr grid" "and (wait_key rd) 255 = 114" "recording ?self3"
    | (toggle_on) grid where "res = Inr grid" "and (wait_key rd) 255 = 114" "\<not> recording ?self3"
    | (other) grid where "res = Inr grid" "and (wait_key rd) 255 \<noteq> 113"
        "and (wait_key rd) 255 \<noteq> 114"
    by (cases res) blast+
  then show ?case
  proof cases
    case raised
    with d1 pd Cons.prems(2) inv2 show ?thesis by simp
  next
    case quit
    with d1 pd d3 Cons.prems(2) q show ?thesis by (simp add: Let_def)
  next
    case toggle_off
    with d1 pd d3 Cons.prems(2) Cons.IH [OF stop, of hp3] show ?thesis by (simp add: Let_def)
  next
    case toggle_on
    with d1 pd d3 sr rec4 Cons.prems(2) Cons.IH [of self4 hp4] show ?thesis by (simp add: Let_def)
  next
    case other
    with d1 pd d3 Cons.prems(2) Cons.IH [OF inv3, of hp3] show ?thesis by (simp add: Let_def)
  qed
qed

text \<open>
  C2: \<open>start_recording\<close> on an empty writers mapping. If no receiver has a frame, the
  store is untouched, the mapping stays empty and recording is on. A source \<open>name\<close>
  without a frame at that moment gets no writer, and none in any later round of the
  session (rounds without the \<open>r\<close> key, 114), whatever frames arrive in them.
\<close>

theorem start_recording_without_frames:
  assumes "writers self = []"
  shows "((\<forall>p \<in> set (receivers self). latest_frame (snd p) = None) \<longrightarrow>
            start_recording ts hp self =
              (hp, self\<lparr>output_dir := Some (''recordings/'' @ ts), writers := [],
                       recording := True\<rparr>)) \<and>
         ((\<forall>r. (name, r) \<in> set (receivers self) \<longrightarrow> latest_frame r = None) \<and>
          (\<forall>rd \<in> set rounds. and (wait_key rd) 255 \<noteq> 114) \<longrightarrow>
            recording (snd (start_recording ts hp self)) \<and>
            map_of (writers (snd (start_recording ts hp self))) name = None \<and>
            map_of (writers (fst (snd (run_loop rounds (fst (start_recording ts hp self))
                (snd (start_recording ts hp self)) shown)))) name = None)"
proof (rule conjI; rule impI)
  assume "\<forall>p \<in> set (receivers self). latest_frame (snd p) = None"
  then have ow: "open_writers (''recordings/'' @ ts) (receivers self) hp (writers self) =
      (hp, writers self)" by (rule open_writers_none)
  show "start_recording ts hp self =
          (hp, self\<lparr>output_dir := Some (''recordings/'' @ ts), writers := [], recording := True\<rparr>)"
    unfolding start_recording_def Let_def ow using assms by simp
next
  assume A: "(\<forall>r. (name, r) \<in> set (receivers self) \<longrightarrow> latest_frame r = None) \<and>
          (\<forall>rd \<in> set rounds. and (wait_key rd) 255 \<noteq> 114)"
  let ?st = "start_recording ts hp self"
  from A have none: "\<forall>r. (name, r) \<in> set (receivers self) \<longrightarrow> latest_frame r = None" by simp
  have ws: "writers (snd ?st) = snd (open_writers (''recordings/'' @ ts) (receivers self) hp (writers self))"
    and rec: "recording (snd ?st)"
    by (simp_all add: start_recording_def Let_def split: prod.splits)
  from open_writers_skip [OF none, of "''recordings/'' @ ts" hp "writers self"] assms
  have w: "map_of (writers (snd ?st)) name = None" unfolding ws by simp
  from A have keys: "\<forall>rd \<in> set rounds. and (wait_key rd) 255 \<noteq> 114" by simp
  from run_loop_no_sink [OF keys w] rec w
  show "recording (snd ?st) \<and> map_of (writers (snd ?st)) name = None \<and>
        map_of (writers (fst (snd (run_loop rounds (fst ?st) (snd ?st) shown)))) name = None"
    by simp
qed

theorem start_recording_without_frames_witness:
  "start_recording ''20260101_120000'' []
     (\<lparr>source_names = [''cam''],
       receivers = [(''cam'', \<lparr>source_name = ''cam'', rx_running = True, ndi_recv = None,
                              latest_frame = None\<rparr>)],
       writers = [], recording = False, mc_running = True,
       output_dir = None\<rparr> :: nat MultiCameraRecorder) =
   ([], \<lparr>source_names = [''cam''],
       receivers = [(''cam'', \<lparr>source_name = ''cam'', rx_running = True, ndi_recv = None,
                              latest_frame = None\<rparr>)],
       writers = [], recording = True, mc_running = True,
       output_dir = Some ''recordings/20260101_120000''\<rparr>) \<and>
   map_of (writers (fst (snd (run_loop
     [\<lparr>captured_before = [(''cam'', FRAME_TYPE_VIDEO (Pixels 4 6 (1::nat)))], captured_after = [],
       wait_key = - 1, clock = ''20260101_120001''\<rparr>] []
     \<lparr>source_names = [''cam''],
       receivers = [(''cam'', \<lparr>source_name = ''cam'', rx_running = True, ndi_recv = None,
                              latest_frame = None\<rparr>)],
       writers = [], recording = True, mc_running = True,
       output_dir = Some ''recordings/20260101_120000''\<rparr> [])))) ''cam'' = None \<and>
   map_option latest_frame (map_of (receivers (fst (snd (run_loop
     [\<lparr>captured_before = [(''cam'', FRAME_TYPE_VIDEO (Pixels 4 6 (1::nat)))], captured_after = [],
       wait_key = - 1, clock = ''20260101_120001''\<rparr>] []
     \<lparr>source_names = [''cam''],
       receivers = [(''cam'', \<lparr>source_name = ''cam'', rx_running = True, ndi_recv = None,
                              latest_frame = None\<rparr>)],
       writers = [], recording = True, mc_running = True,
       output_dir = Some ''recordings/20260101_120000''\<rparr> [])))) ''cam'') = Some (Some 0)"
proof -
  let ?r = "\<lparr>source_name = ''cam'', rx_running = True, ndi_recv = None, latest_frame = None\<rparr>"
  let ?S = "\<lparr>source_names = [''cam''], receivers = [(''cam'', ?r)], writers = [],
             recording = False, mc_running = True, output_dir = None\<rparr> :: nat MultiCameraRecorder"
  let ?S1 = "\<lparr>source_names = [''cam''], receivers = [(''cam'', ?r)], writers = [],
             recording = True, mc_running = True,
             output_dir = Some ''recordings/20260101_120000''\<rparr> :: nat MultiCameraRecorder"
  let ?R = "[\<lparr>captured_before = [(''cam'', FRAME_TYPE_VIDEO (Pixels 4 6 (1::nat)))],
              captured_after = [], wait_key = - 1, clock = ''20260101_120001''\<rparr>]"
  have w: "writers ?S = []" by simp
  have none: "\<forall>p \<in> set (receivers ?S). latest_frame (snd p) = None" by simp
  have pre: "(\<forall>r. (''cam'', r) \<in> set (receivers ?S) \<longrightarrow> latest_frame r = None) \<and>
             (\<forall>rd \<in> set ?R. and (wait_key rd) 255 \<noteq> 114)" by simp
  note T = start_recording_without_frames [OF w, of "''20260101_120000''" "[]" "''cam''" ?R "[]"]
  from T [THEN conjunct1, THEN mp, OF none]
  have st: "start_recording ''20260101_120000'' [] ?S = ([], ?S1)" by simp
  from T [THEN conjunct2, THEN mp, OF pre]
  have "map_of (writers (fst (snd (run_loop ?R [] ?S1 [])))) ''cam'' = None"
    unfolding st by simp
  moreover have "map_option latest_frame
      (map_of (receivers (fst (snd (run_loop ?R [] ?S1 [])))) ''cam'') = Some (Some 0)"
    by (simp add: receive_step_def poll_and_display_def get_latest_frame_def
        create_grid_display_def grid_layout_def cv2_resize_def draw_border_def Let_def)
  ultimately show ?thesis using st by blast
qed

end
